theory Spec2Isabelle
  imports Main "HOL-Library.Multiset"
begin

section \<open>Python values and failures\<close>

text \<open>
  The module \<^verbatim>\<open>data_utils.py\<close> is embedded function by function. Python
  integers are \<^typ>\<open>int\<close>, lists are HOL lists, and every exception the code can
  raise is a value of \<open>error\<close>; a function that can raise returns \<open>error + 'a\<close>,
  \<open>Inl\<close> carrying the exception. An \<^verbatim>\<open>assert\<close> statement raises
  \<^verbatim>\<open>AssertionError\<close> with the message the statement gives, if it gives one:
  \<^verbatim>\<open>assert c, wav_path\<close> raises \<open>AssertionError (Some wav_path)\<close> and
  \<^verbatim>\<open>assert c\<close> raises \<open>AssertionError None\<close>.
\<close>

datatype error =
    IndexError
  | ZeroDivisionError
  | ValueError
  | RuntimeError
  | OSError
  | AssertionError "string option"

text \<open>\<^verbatim>\<open>xs[i]\<close>: a negative index counts from the end, an index out of range raises.\<close>

definition getitem :: "'a list \<Rightarrow> int \<Rightarrow> error + 'a" where
  "getitem xs i =
     (if 0 \<le> i \<and> i < int (length xs) then Inr (xs ! nat i)
      else if i < 0 \<and> - int (length xs) \<le> i then Inr (xs ! nat (int (length xs) + i))
      else Inl IndexError)"

text \<open>\<^verbatim>\<open>xs[:k]\<close>: a negative bound counts from the end, and bounds are clamped.\<close>

definition slice_to :: "'a list \<Rightarrow> int \<Rightarrow> 'a list" where
  "slice_to xs k = (if 0 \<le> k then take (nat k) xs else take (nat (int (length xs) + k)) xs)"

text \<open>\<^verbatim>\<open>xs[a:b]\<close>, with the same clamping.\<close>

definition slice :: "'a list \<Rightarrow> int \<Rightarrow> int \<Rightarrow> 'a list" where
  "slice xs a b =
     (let n = int (length xs);
          a' = (if a < 0 then max 0 (a + n) else min a n);
          b' = (if b < 0 then max 0 (b + n) else min b n)
      in take (nat (b' - a')) (drop (nat a') xs))"

text \<open>
  \<^verbatim>\<open>xs[start::step]\<close>. Python adjusts \<open>start\<close> to the list, takes the end of the
  list (the beginning, for a negative step) as the bound, and returns the elements at
  \<open>start\<close>, \<open>start + step\<close>, ... up to the bound; a step of zero raises
  \<^verbatim>\<open>ValueError\<close>.
\<close>

definition slice_from_step :: "'a list \<Rightarrow> int \<Rightarrow> int \<Rightarrow> error + 'a list" where
  "slice_from_step xs start step =
     (let n = int (length xs) in
      if step = 0 then Inl ValueError
      else if 0 < step then
        (let s = (if start < 0 then max 0 (start + n) else min start n)
         in Inr (map (\<lambda>j. xs ! nat (s + int j * step))
                  [0..<nat ((n - s + step - 1) div step)]))
      else
        (let s = (if start < 0 then max (- 1) (start + n) else min start (n - 1))
         in Inr (map (\<lambda>j. xs ! nat (s + int j * step))
                  [0..<nat ((s - step) div (- step))])))"

text \<open>\<^verbatim>\<open>[xs[i] for i in idxs]\<close>, the indices being non-negative.\<close>

fun gather :: "'a list \<Rightarrow> nat list \<Rightarrow> error + 'a list" where
  "gather xs [] = Inr []"
| "gather xs (i # idxs) =
     (case getitem xs (int i) of
        Inl e \<Rightarrow> Inl e
      | Inr v \<Rightarrow> (case gather xs idxs of Inl e \<Rightarrow> Inl e | Inr vs \<Rightarrow> Inr (v # vs)))"

text \<open>\<^verbatim>\<open>xs.pop(i)\<close> for a non-negative \<open>i\<close>, returning the list that is left.\<close>

definition pop :: "'a list \<Rightarrow> nat \<Rightarrow> error + 'a list" where
  "pop xs i = (if i < length xs then Inr (take i xs @ drop (Suc i) xs) else Inl IndexError)"

section \<open>DistributedBucketSampler\<close>

subsection \<open>\<^verbatim>\<open>_bisect\<close>\<close>

text \<open>
  \<^verbatim>\<open>
  def _bisect(self, x, lo=0, hi=None):
    if hi is None:
      hi = len(self.boundaries) - 1
    if hi > lo:
      mid = (hi + lo) // 2
      if self.boundaries[mid] < x and x <= self.boundaries[mid + 1]:
        return mid
      elif x <= self.boundaries[mid]:
        return self._bisect(x, lo, mid)
      else:
        return self._bisect(x, mid + 1, hi)
    else:
      return -1
  \<close>
  The conjunction short-circuits: \<^verbatim>\<open>boundaries[mid + 1]\<close> is read only when
  \<^verbatim>\<open>boundaries[mid] < x\<close>.
\<close>

function bisect_from :: "int list \<Rightarrow> int \<Rightarrow> int \<Rightarrow> int \<Rightarrow> error + int" where
  "bisect_from boundaries x lo hi =
     (if hi > lo then
        (case getitem boundaries ((hi + lo) div 2) of
           Inl e \<Rightarrow> Inl e
         | Inr b_mid \<Rightarrow>
             if b_mid < x then
               (case getitem boundaries ((hi + lo) div 2 + 1) of
                  Inl e \<Rightarrow> Inl e
                | Inr b_next \<Rightarrow>
                    if x \<le> b_next then Inr ((hi + lo) div 2)
                    else bisect_from boundaries x ((hi + lo) div 2 + 1) hi)
             else bisect_from boundaries x lo ((hi + lo) div 2))
      else Inr (- 1))"
  by pat_completeness auto
termination
  by (relation "measure (\<lambda>(boundaries, x, lo, hi). nat (hi - lo))") auto

declare bisect_from.simps [simp del]

text \<open>The call with the default arguments, \<^verbatim>\<open>self._bisect(length)\<close>.\<close>

definition bisect :: "int list \<Rightarrow> int \<Rightarrow> error + int" where
  "bisect boundaries x = bisect_from boundaries x 0 (int (length boundaries) - 1)"

subsection \<open>\<^verbatim>\<open>_create_buckets\<close>\<close>

text \<open>\<^verbatim>\<open>buckets[idx_bucket].append(i)\<close>\<close>

definition append_at :: "nat list list \<Rightarrow> int \<Rightarrow> nat \<Rightarrow> error + nat list list" where
  "append_at bks idx i =
     (case getitem bks idx of
        Inl e \<Rightarrow> Inl e
      | Inr b \<Rightarrow>
          Inr (bks[nat (if idx < 0 then int (length bks) + idx else idx) := b @ [i]]))"

text \<open>
  The first loop, over the examples \<open>i, i + 1, ...\<close> whose lengths are still to be
  placed:
  \<^verbatim>\<open>
    for i in range(len(self.lengths)):
      length = self.lengths[i]
      idx_bucket = self._bisect(length)
      if idx_bucket != -1:
        buckets[idx_bucket].append(i)
  \<close>
\<close>

fun assign_buckets :: "int list \<Rightarrow> int list \<Rightarrow> nat \<Rightarrow> nat list list \<Rightarrow> error + nat list list" where
  "assign_buckets bd [] i bks = Inr bks"
| "assign_buckets bd (len # rest) i bks =
     (case bisect bd len of
        Inl e \<Rightarrow> Inl e
      | Inr idx_bucket \<Rightarrow>
          if idx_bucket \<noteq> - 1 then
            (case append_at bks idx_bucket i of
               Inl e \<Rightarrow> Inl e
             | Inr bks' \<Rightarrow> assign_buckets bd rest (Suc i) bks')
          else assign_buckets bd rest (Suc i) bks)"

text \<open>
  The second loop, with \<open>i\<close> running down from \<open>n - 1\<close> to \<open>0\<close>:
  \<^verbatim>\<open>
    for i in range(len(buckets) - 1, -1, -1):
      if len(buckets[i]) == 0:
        buckets.pop(i)
        self.boundaries.pop(i + 1)
  \<close>
\<close>

fun prune :: "nat \<Rightarrow> nat list list \<Rightarrow> int list \<Rightarrow> error + (nat list list \<times> int list)" where
  "prune 0 bks bd = Inr (bks, bd)"
| "prune (Suc i) bks bd =
     (case getitem bks (int i) of
        Inl e \<Rightarrow> Inl e
      | Inr b \<Rightarrow>
          if length b = 0 then
            (case pop bks i of
               Inl e \<Rightarrow> Inl e
             | Inr bks' \<Rightarrow>
                 (case pop bd (Suc i) of
                    Inl e \<Rightarrow> Inl e
                  | Inr bd' \<Rightarrow> prune i bks' bd'))
          else prune i bks bd)"

text \<open>
  The third loop:
  \<^verbatim>\<open>
    for i in range(len(buckets)):
      len_bucket = len(buckets[i])
      total_batch_size = self.num_replicas * self.batch_size
      rem = (total_batch_size - (len_bucket % total_batch_size)) % total_batch_size
      num_samples_per_bucket.append(len_bucket + rem)
  \<close>
  Python's \<^verbatim>\<open>%\<close> and \<^verbatim>\<open>//\<close> round towards minus infinity, as \<open>mod\<close> and
  \<open>div\<close> on \<^typ>\<open>int\<close> do; a zero divisor raises.
\<close>

definition padded_size :: "int \<Rightarrow> int \<Rightarrow> int" where
  "padded_size total_batch_size len_bucket =
     len_bucket + (total_batch_size - (len_bucket mod total_batch_size)) mod total_batch_size"

fun pad_counts :: "int \<Rightarrow> int \<Rightarrow> nat list list \<Rightarrow> error + int list" where
  "pad_counts nr bs [] = Inr []"
| "pad_counts nr bs (bucket # rest) =
     (if nr * bs = 0 then Inl ZeroDivisionError
      else (case pad_counts nr bs rest of
              Inl e \<Rightarrow> Inl e
            | Inr ns \<Rightarrow> Inr (padded_size (nr * bs) (int (length bucket)) # ns)))"

text \<open>
  \<^verbatim>\<open>_create_buckets\<close> returns the buckets and the padded sizes, and leaves the
  pruned boundaries in \<^verbatim>\<open>self.boundaries\<close>; the model returns all three.
\<close>

definition create_buckets ::
  "int list \<Rightarrow> int list \<Rightarrow> int \<Rightarrow> int \<Rightarrow> error + (nat list list \<times> int list \<times> int list)" where
  "create_buckets lens bd nr bs =
     (case assign_buckets bd lens 0 (replicate (nat (int (length bd) - 1)) []) of
        Inl e \<Rightarrow> Inl e
      | Inr bks \<Rightarrow>
          (case prune (length bks) bks bd of
             Inl e \<Rightarrow> Inl e
           | Inr (bks', bd') \<Rightarrow>
               (case pad_counts nr bs bks' of
                  Inl e \<Rightarrow> Inl e
                | Inr ns \<Rightarrow> Inr (bks', bd', ns))))"

subsection \<open>The sampler's state and \<^verbatim>\<open>__init__\<close>\<close>

record sampler =
  lengths :: "int list"
  batch_size :: int
  boundaries :: "int list"
  num_replicas :: int
  rank :: int
  shuffle :: bool
  epoch :: int
  buckets :: "nat list list"
  num_samples_per_bucket :: "int list"
  total_size :: int
  num_samples :: int
  batches :: "nat list list option"

text \<open>
  \<^verbatim>\<open>__init__\<close> first runs the constructor of torch's
  \<^verbatim>\<open>DistributedSampler\<close>, which stores \<^verbatim>\<open>num_replicas\<close>, \<^verbatim>\<open>rank\<close>,
  \<^verbatim>\<open>shuffle\<close> and \<^verbatim>\<open>epoch = 0\<close> and raises \<^verbatim>\<open>ValueError\<close> unless
  \<^verbatim>\<open>0 <= rank < num_replicas\<close>; the replica count and the rank are passed
  explicitly here. Then
  \<^verbatim>\<open>
    self.buckets, self.num_samples_per_bucket = self._create_buckets()
    self.total_size = sum(self.num_samples_per_bucket)
    self.num_samples = self.total_size // self.num_replicas
  \<close>
  \<^verbatim>\<open>self.batches\<close> does not exist until \<^verbatim>\<open>__iter__\<close> has run: \<open>None\<close>.
\<close>

definition init :: "int list \<Rightarrow> int \<Rightarrow> int list \<Rightarrow> int \<Rightarrow> int \<Rightarrow> bool \<Rightarrow> error + sampler" where
  "init lens bs bd nr rk sh =
     (if rk \<ge> nr \<or> rk < 0 then Inl ValueError
      else (case create_buckets lens bd nr bs of
              Inl e \<Rightarrow> Inl e
            | Inr (bks, bd', ns) \<Rightarrow>
                if nr = 0 then Inl ZeroDivisionError
                else Inr \<lparr> lengths = lens, batch_size = bs, boundaries = bd',
                           num_replicas = nr, rank = rk, shuffle = sh, epoch = 0,
                           buckets = bks, num_samples_per_bucket = ns,
                           total_size = sum_list ns,
                           num_samples = sum_list ns div nr,
                           batches = None \<rparr>))"

text \<open>
  The caller sets \<^verbatim>\<open>self.epoch\<close> before each pass (\<^verbatim>\<open>set_epoch\<close> of
  \<^verbatim>\<open>DistributedSampler\<close>): the sampler \<open>s\<close> at epoch \<open>e\<close> is
  \<open>s\<lparr>epoch := e\<rparr>\<close>.
\<close>

text \<open>\<^verbatim>\<open>__len__\<close>\<close>

definition len_sampler :: "sampler \<Rightarrow> error + int" where
  "len_sampler s =
     (if batch_size s = 0 then Inl ZeroDivisionError else Inr (num_samples s div batch_size s))"

subsection \<open>\<^verbatim>\<open>__iter__\<close>\<close>

text \<open>
  torch's generator is outside the repository. The model takes it as two parameters:
  \<open>seed e\<close> is the state of a fresh \<^verbatim>\<open>torch.Generator\<close> after
  \<^verbatim>\<open>manual_seed(e)\<close>, for a seed \<open>e\<close> that the generator accepts (a seed is a
  64-bit number: \<^verbatim>\<open>manual_seed\<close> raises \<^verbatim>\<open>RuntimeError\<close> unless
  \<open>- 2 ^ 63 \<le> e\<close> and \<open>e < 2 ^ 64\<close>), and \<open>randperm n g\<close> is the list
  \<^verbatim>\<open>torch.randperm(n, generator=g).tolist()\<close> together with the generator's
  next state. What torch promises of \<^verbatim>\<open>randperm(n)\<close> is that it is a
  permutation of \<open>0, ..., n - 1\<close>.
\<close>

definition valid_randperm :: "(nat \<Rightarrow> 'g \<Rightarrow> nat list \<times> 'g) \<Rightarrow> bool" where
  "valid_randperm randperm = (\<forall>n g. mset (fst (randperm n g)) = mset [0..<n])"

text \<open>
  \<^verbatim>\<open>
    indices = []
    if self.shuffle:
      for bucket in self.buckets:
        indices.append(torch.randperm(len(bucket), generator=g).tolist())
    else:
      for bucket in self.buckets:
        indices.append(list(range(len(bucket))))
  \<close>
\<close>

fun draw_indices ::
  "(nat \<Rightarrow> 'g \<Rightarrow> nat list \<times> 'g) \<Rightarrow> bool \<Rightarrow> nat list list \<Rightarrow> 'g \<Rightarrow> nat list list \<times> 'g" where
  "draw_indices randperm sh [] g = ([], g)"
| "draw_indices randperm sh (bucket # rest) g =
     (if sh then
        (case randperm (length bucket) g of
           (p, g') \<Rightarrow>
             (case draw_indices randperm sh rest g' of (ps, g'') \<Rightarrow> (p # ps, g'')))
      else
        (case draw_indices randperm sh rest g of (ps, g') \<Rightarrow> ([0..<length bucket] # ps, g')))"

text \<open>
  The cyclic extension of one bucket's indices to the bucket's padded size:
  \<^verbatim>\<open>
      rem = num_samples_bucket - len_bucket
      ids_bucket = ids_bucket + ids_bucket * (rem // len_bucket) + ids_bucket[:(rem % len_bucket)]
  \<close>
  A list times a negative number is the empty list.
\<close>

definition extend_ids :: "nat list \<Rightarrow> int \<Rightarrow> int \<Rightarrow> error + nat list" where
  "extend_ids ids_bucket num_samples_bucket len_bucket =
     (let rem = num_samples_bucket - len_bucket in
      if len_bucket = 0 then Inl ZeroDivisionError
      else Inr (ids_bucket @ concat (replicate (nat (rem div len_bucket)) ids_bucket)
                  @ slice_to ids_bucket (rem mod len_bucket)))"

text \<open>\<^verbatim>\<open>ids_bucket = ids_bucket[self.rank::self.num_replicas]\<close>\<close>

definition subsample :: "nat list \<Rightarrow> int \<Rightarrow> int \<Rightarrow> error + nat list" where
  "subsample ids_bucket rk nr = slice_from_step ids_bucket rk nr"

text \<open>
  \<^verbatim>\<open>
      for j in range(len(ids_bucket) // self.batch_size):
        batch = [bucket[idx] for idx in ids_bucket[j * self.batch_size:(j + 1) * self.batch_size]]
        batches.append(batch)
  \<close>
  \<open>batch_loop\<close> is the loop over the values of \<open>j\<close> that are left.
\<close>

fun batch_loop :: "nat list \<Rightarrow> nat list \<Rightarrow> int \<Rightarrow> nat list \<Rightarrow> error + nat list list" where
  "batch_loop bucket ids_bucket bs [] = Inr []"
| "batch_loop bucket ids_bucket bs (j # js) =
     (case gather bucket (slice ids_bucket (int j * bs) ((int j + 1) * bs)) of
        Inl e \<Rightarrow> Inl e
      | Inr batch \<Rightarrow>
          (case batch_loop bucket ids_bucket bs js of
             Inl e \<Rightarrow> Inl e
           | Inr others \<Rightarrow> Inr (batch # others)))"

definition make_batches :: "nat list \<Rightarrow> nat list \<Rightarrow> int \<Rightarrow> error + nat list list" where
  "make_batches bucket ids_bucket bs =
     (if bs = 0 then Inl ZeroDivisionError
      else batch_loop bucket ids_bucket bs [0..<nat (int (length ids_bucket) div bs)])"

text \<open>
  One round of the loop over the buckets: the batches that rank \<open>rk\<close> takes from a
  bucket, given the bucket's drawn indices and its padded size.
\<close>

definition bucket_batches ::
  "int \<Rightarrow> int \<Rightarrow> int \<Rightarrow> nat list \<Rightarrow> nat list \<Rightarrow> int \<Rightarrow> error + nat list list" where
  "bucket_batches rk nr bs bucket ids_bucket num_samples_bucket =
     (case extend_ids ids_bucket num_samples_bucket (int (length bucket)) of
        Inl e \<Rightarrow> Inl e
      | Inr padded \<Rightarrow>
          (case subsample padded rk nr of
             Inl e \<Rightarrow> Inl e
           | Inr mine \<Rightarrow> make_batches bucket mine bs))"

text \<open>
  The loop \<^verbatim>\<open>for i in range(len(self.buckets))\<close>, over the buckets from the
  \<open>i\<close>-th on; \<^verbatim>\<open>indices\<close> has one entry per bucket by construction, and
  \<^verbatim>\<open>self.num_samples_per_bucket[i]\<close> raises when that list is too short.
\<close>

fun bucket_loop ::
  "int \<Rightarrow> int \<Rightarrow> int \<Rightarrow> int list \<Rightarrow> nat \<Rightarrow> (nat list \<times> nat list) list \<Rightarrow> error + nat list list" where
  "bucket_loop rk nr bs ns i [] = Inr []"
| "bucket_loop rk nr bs ns i ((bucket, ids_bucket) # rest) =
     (case getitem ns (int i) of
        Inl e \<Rightarrow> Inl e
      | Inr num_samples_bucket \<Rightarrow>
          (case bucket_batches rk nr bs bucket ids_bucket num_samples_bucket of
             Inl e \<Rightarrow> Inl e
           | Inr here \<Rightarrow>
               (case bucket_loop rk nr bs ns (Suc i) rest of
                  Inl e \<Rightarrow> Inl e
                | Inr others \<Rightarrow> Inr (here @ others))))"

text \<open>
  \<^verbatim>\<open>
    if self.shuffle:
      batch_ids = torch.randperm(len(batches), generator=g).tolist()
      batches = [batches[i] for i in batch_ids]
    self.batches = batches
    assert len(self.batches) * self.batch_size == self.num_samples
    return iter(self.batches)
  \<close>
  \<open>iter\<close> returns the sampler as the call leaves it and the batch list, or the
  exception. The first statements, \<^verbatim>\<open>g = torch.Generator()\<close> and
  \<^verbatim>\<open>g.manual_seed(self.epoch)\<close>, raise when the epoch is not a seed. The
  assertion is checked after \<^verbatim>\<open>self.batches\<close> is assigned.
\<close>

definition iter ::
  "(int \<Rightarrow> 'g) \<Rightarrow> (nat \<Rightarrow> 'g \<Rightarrow> nat list \<times> 'g) \<Rightarrow> sampler \<Rightarrow> sampler \<times> (error + nat list list)" where
  "iter seed randperm s =
     (if epoch s < - (2 ^ 63) \<or> 2 ^ 64 \<le> epoch s then (s, Inl RuntimeError)
      else
     (case draw_indices randperm (shuffle s) (buckets s) (seed (epoch s)) of
        (indices, g) \<Rightarrow>
          (case bucket_loop (rank s) (num_replicas s) (batch_size s)
                  (num_samples_per_bucket s) 0 (zip (buckets s) indices) of
             Inl e \<Rightarrow> (s, Inl e)
           | Inr bl \<Rightarrow>
               (case (if shuffle s then gather bl (fst (randperm (length bl) g)) else Inr bl) of
                  Inl e \<Rightarrow> (s, Inl e)
                | Inr bl' \<Rightarrow>
                    (s\<lparr>batches := Some bl'\<rparr>,
                     if int (length bl') * batch_size s = num_samples s then Inr bl'
                     else Inl (AssertionError None))))))"

section \<open>Tensors\<close>

text \<open>
  A two-dimensional torch tensor of shape \<open>[size0, size1]\<close> is the list of its rows
  and, since a tensor without rows still has a second dimension, the row length
  \<open>size1\<close>. The record is a tensor when every row has that length. The entries of
  the float tensors are only copied and compared with nothing, so their type is a
  parameter with a zero; the entries of a \<^verbatim>\<open>LongTensor\<close> are integers.
\<close>

record 'a tensor2 =
  size1 :: nat
  rows :: "'a list list"

definition size0 :: "'a tensor2 \<Rightarrow> nat" where
  "size0 t = length (rows t)"

definition is_tensor :: "'a tensor2 \<Rightarrow> bool" where
  "is_tensor t = list_all (\<lambda>r. length r = size1 t) (rows t)"

text \<open>\<^verbatim>\<open>t[:, :k]\<close>\<close>

definition slice_cols :: "'a tensor2 \<Rightarrow> int \<Rightarrow> 'a tensor2" where
  "slice_cols t k =
     \<lparr> size1 = (if 0 \<le> k then min (nat k) (size1 t) else nat (int (size1 t) + k)),
       rows = map (\<lambda>r. slice_to r k) (rows t) \<rparr>"

text \<open>\<^verbatim>\<open>torch.zeros([n, k])\<close>; a negative dimension raises.\<close>

definition zeros :: "nat \<Rightarrow> int \<Rightarrow> error + ('a::zero) tensor2" where
  "zeros n k =
     (if k < 0 then Inl RuntimeError
      else Inr \<lparr> size1 = nat k, rows = replicate n (replicate (nat k) 0) \<rparr>)"

text \<open>
  \<^verbatim>\<open>dst[:, :src.shape[-1]] = src\<close>. The left-hand side is the view of \<open>dst\<close> on
  its first \<open>m = min(src.shape[-1], dst.shape[-1])\<close> columns; \<open>src\<close> is copied into
  it after broadcasting, which needs each dimension of \<open>src\<close> to be that of the view
  or 1, and raises otherwise. A single row is repeated for every row of the view; a
  single column can only be broadcast to a view of no columns here.
\<close>

definition assign_cols :: "'a tensor2 \<Rightarrow> 'a tensor2 \<Rightarrow> error + 'a tensor2" where
  "assign_cols dst src =
     (let m = min (size1 src) (size1 dst) in
      if (size0 src = size0 dst \<or> size0 src = 1) \<and> (size1 src = m \<or> size1 src = 1) then
        Inr (dst\<lparr> rows :=
               map2 (\<lambda>s d. take m s @ drop m d)
                 (if size0 src = size0 dst then rows src
                  else replicate (size0 dst) (hd (rows src)))
                 (rows dst) \<rparr>)
      else Inl RuntimeError)"

text \<open>The same for a one-dimensional tensor, \<^verbatim>\<open>dst[:src.size(0)] = src\<close>.\<close>

definition assign_prefix :: "'a list \<Rightarrow> 'a list \<Rightarrow> error + 'a list" where
  "assign_prefix dst src =
     (let m = min (length src) (length dst) in
      if length src = m \<or> length src = 1 then Inr (take m src @ drop m dst)
      else Inl RuntimeError)"

section \<open>TextAudioLoader\<close>

subsection \<open>\<^verbatim>\<open>_filter\<close>\<close>

text \<open>
  \<^verbatim>\<open>load_filepaths_and_text\<close> gives the manifest as a list of rows, each row the
  list of the strings between the separators of a line. \<^verbatim>\<open>__init__\<close> shuffles
  this list (\<^verbatim>\<open>random.seed(1234)\<close>, \<^verbatim>\<open>random.shuffle\<close>) and then calls
  \<^verbatim>\<open>_filter\<close>, which reads \<^verbatim>\<open>self.audiopaths_sid_text\<close>: the list that
  \<open>filter_rows\<close> takes is the shuffled one, and the model says nothing of the
  shuffle. The file system is a parameter: \<open>getsize p\<close> is
  \<^verbatim>\<open>os.path.getsize(p)\<close> or the exception it raises.
  \<^verbatim>\<open>os.path.join(a, b)\<close> is the POSIX one.
\<close>

definition path_join :: "string \<Rightarrow> string \<Rightarrow> string" where
  "path_join a b =
     (if b \<noteq> [] \<and> hd b = CHR ''/'' then b
      else if a = [] \<or> last a = CHR ''/'' then a @ b
      else a @ ''/'' @ b)"

text \<open>
  \<^verbatim>\<open>
    for id_, phonemes, durations in self.audiopaths_sid_text:
      if self.min_text_len <= len(phonemes) <= self.max_text_len:
        wav_path = os.path.join(self.data_path, id_) + ".wav"
        audiopaths_sid_text_new.append([wav_path, phonemes, durations])
        lengths.append(os.path.getsize(wav_path) // (2 * self.hop_length))
  \<close>
  Unpacking a row that does not have exactly three fields raises
  \<^verbatim>\<open>ValueError\<close>. \<open>phonemes\<close> is the string of the manifest, so
  \<^verbatim>\<open>len(phonemes)\<close> is its number of characters. The function returns the new
  \<^verbatim>\<open>self.audiopaths_sid_text\<close> and \<^verbatim>\<open>self.lengths\<close>.
\<close>

fun filter_rows ::
  "(string \<Rightarrow> error + int) \<Rightarrow> string \<Rightarrow> int \<Rightarrow> int \<Rightarrow> int \<Rightarrow> string list list
     \<Rightarrow> error + (string list list \<times> int list)" where
  "filter_rows getsize data_path hop_length min_text_len max_text_len [] = Inr ([], [])"
| "filter_rows getsize data_path hop_length min_text_len max_text_len (row # rest) =
     (case row of
        [id_, phonemes, durations] \<Rightarrow>
          if min_text_len \<le> int (length phonemes) \<and> int (length phonemes) \<le> max_text_len then
            (case getsize (path_join data_path id_ @ ''.wav'') of
               Inl e \<Rightarrow> Inl e
             | Inr file_size \<Rightarrow>
                 if 2 * hop_length = 0 then Inl ZeroDivisionError
                 else
                   (case filter_rows getsize data_path hop_length min_text_len max_text_len rest of
                      Inl e \<Rightarrow> Inl e
                    | Inr (kept, lens) \<Rightarrow>
                        Inr ([path_join data_path id_ @ ''.wav'', phonemes, durations] # kept,
                             file_size div (2 * hop_length) # lens)))
          else filter_rows getsize data_path hop_length min_text_len max_text_len rest
      | _ \<Rightarrow> Inl ValueError)"

text \<open>
  \<^verbatim>\<open>phonemes.split(" ")\<close>, as \<^verbatim>\<open>get_phonemes\<close> calls it before it hands the
  pieces to \<^verbatim>\<open>cleaned_text_to_sequence\<close>: the text units of a row are the pieces
  between single spaces.
\<close>

fun split_spaces :: "string \<Rightarrow> string list" where
  "split_spaces [] = [[]]"
| "split_spaces (c # cs) =
     (if c = CHR '' '' then [] # split_spaces cs
      else (case split_spaces cs of
              piece # pieces \<Rightarrow> (c # piece) # pieces
            | [] \<Rightarrow> [[c]]))"

subsection \<open>\<^verbatim>\<open>get_audio_text_pair\<close>\<close>

text \<open>
  The first lines of the method call code outside the repository
  (\<^verbatim>\<open>cleaned_text_to_sequence\<close>, \<^verbatim>\<open>load_wav_to_torch\<close>,
  \<^verbatim>\<open>spectrogram_torch\<close>, \<^verbatim>\<open>Pitch.yingram\<close>, the feature cache on disk). The
  model starts where their results are at hand: \<open>phonemes\<close> and \<open>phn_dur\<close> are the
  two \<^verbatim>\<open>LongTensor\<close>s, \<open>spec\<close>, \<open>ying\<close> and \<open>wav\<close> the tensors that
  \<^verbatim>\<open>get_audio\<close> returns.
  \<^verbatim>\<open>
    sumdur = sum(phn_dur)
    assert abs(spec.shape[-1] - sumdur) < 2, wav_path

    if spec.shape[-1] > sumdur:
      spec = spec[:, :sumdur]
      wav = wav[:, :sumdur * self.hop_length]
    elif spec.shape[-1] < sumdur:
      spec_pad = torch.zeros([spec.shape[0], sumdur])
      wav_pad = torch.zeros([1, sumdur * self.hop_length])
      spec_pad[:, :spec.shape[-1]] = spec
      wav_pad[:, :wav.shape[-1]] = wav
      spec = spec_pad
      wav = wav_pad

    assert phonemes.shape == phn_dur.shape, wav_path
    assert sumdur == wav.shape[-1] // self.hop_length

    return phonemes, spec, ying, wav, phn_dur
  \<close>
  \<open>sumdur\<close> is a \<^verbatim>\<open>LongTensor\<close> of no dimension, so what the method computes
  with it is torch's arithmetic of 64-bit integers, which wraps around:
  \<^verbatim>\<open>sum(phn_dur)\<close> adds the entries one after the other, starting from 0
  (\<open>tensor_sum\<close>); \<^verbatim>\<open>spec.shape[-1] - sumdur\<close> and \<^verbatim>\<open>abs\<close> wrap
  (the absolute value of \<open>- 2 ^ 63\<close> is \<open>- 2 ^ 63\<close>); and
  \<^verbatim>\<open>sumdur * self.hop_length\<close> turns the Python integer into a 64-bit scalar,
  which raises \<^verbatim>\<open>RuntimeError\<close> for an integer that is not one, and wraps
  (\<open>tensor_mul\<close>). The comparisons, the slices and \<^verbatim>\<open>torch.zeros\<close> read
  the value of the tensor; \<^verbatim>\<open>wav.shape[-1] // self.hop_length\<close> is Python's.
  (\<^verbatim>\<open>get_duration_flag\<close> returns a tensor with at least one entry. For a
  tensor without entries \<^verbatim>\<open>sum\<close> returns Python's 0 and the arithmetic is
  Python's, which is what the model computes when the hop length is a 64-bit integer
  and the spectrogram has fewer than \<open>2 ^ 63\<close> frames.)
  The \<^verbatim>\<open>if\<close>/\<^verbatim>\<open>elif\<close> between the first assertion and the last two is
  the definition \<open>reconcile\<close>, which returns the new \<^verbatim>\<open>spec\<close> and
  \<^verbatim>\<open>wav\<close>.
\<close>

definition wrap64 :: "int \<Rightarrow> int" where
  "wrap64 x = (x + 2 ^ 63) mod 2 ^ 64 - 2 ^ 63"

definition tensor_sum :: "int list \<Rightarrow> int" where
  "tensor_sum xs = foldl (\<lambda>acc x. wrap64 (acc + x)) 0 xs"

definition tensor_mul :: "int \<Rightarrow> int \<Rightarrow> error + int" where
  "tensor_mul t c =
     (if c < - (2 ^ 63) \<or> 2 ^ 63 \<le> c then Inl RuntimeError else Inr (wrap64 (t * c)))"

type_synonym 'a example = "int list \<times> 'a tensor2 \<times> 'a tensor2 \<times> 'a tensor2 \<times> int list"

definition reconcile ::
  "int \<Rightarrow> 'a tensor2 \<Rightarrow> 'a tensor2 \<Rightarrow> int \<Rightarrow> error + (('a::zero) tensor2 \<times> 'a tensor2)" where
  "reconcile hop_length spec wav sumdur =
     (if int (size1 spec) > sumdur then
        (case tensor_mul sumdur hop_length of
           Inl e \<Rightarrow> Inl e
         | Inr k \<Rightarrow> Inr (slice_cols spec sumdur, slice_cols wav k))
      else if int (size1 spec) < sumdur then
        (case zeros (size0 spec) sumdur of
           Inl e \<Rightarrow> Inl e
         | Inr spec_pad \<Rightarrow>
             (case tensor_mul sumdur hop_length of
                Inl e \<Rightarrow> Inl e
              | Inr k \<Rightarrow>
                  (case zeros 1 k of
                     Inl e \<Rightarrow> Inl e
                   | Inr wav_pad \<Rightarrow>
                       (case assign_cols spec_pad spec of
                          Inl e \<Rightarrow> Inl e
                        | Inr spec' \<Rightarrow>
                            (case assign_cols wav_pad wav of
                               Inl e \<Rightarrow> Inl e
                             | Inr wav' \<Rightarrow> Inr (spec', wav'))))))
      else Inr (spec, wav))"

definition get_audio_text_pair ::
  "int \<Rightarrow> string \<Rightarrow> int list \<Rightarrow> int list \<Rightarrow> 'a tensor2 \<Rightarrow> 'a tensor2 \<Rightarrow> 'a tensor2
     \<Rightarrow> error + ('a::zero) example" where
  "get_audio_text_pair hop_length wav_path phonemes phn_dur spec ying wav =
     (let sumdur = tensor_sum phn_dur in
      if \<not> wrap64 \<bar>wrap64 (int (size1 spec) - sumdur)\<bar> < 2 then
        Inl (AssertionError (Some wav_path))
      else
        (case reconcile hop_length spec wav sumdur of
           Inl e \<Rightarrow> Inl e
         | Inr (spec', wav') \<Rightarrow>
             if length phonemes \<noteq> length phn_dur then Inl (AssertionError (Some wav_path))
             else if hop_length = 0 then Inl ZeroDivisionError
             else if sumdur \<noteq> int (size1 wav') div hop_length then Inl (AssertionError None)
             else Inr (phonemes, spec', ying, wav', phn_dur)))"

section \<open>TextAudioCollate\<close>

text \<open>
  What \<^verbatim>\<open>__call__\<close> returns is a tuple of tensors: one-dimensional and
  two-dimensional \<^verbatim>\<open>LongTensor\<close>s and three-dimensional \<^verbatim>\<open>FloatTensor\<close>s, the
  latter as the list of their \<open>[channels, length]\<close> slices along the batch dimension.
\<close>

datatype 'a torch_value =
    LongTensor1 "int list"
  | LongTensor2 "int tensor2"
  | FloatTensor3 "'a tensor2 list"

text \<open>
  \<^verbatim>\<open>torch.sort(keys, dim=0, descending=True)\<close> is torch's; the collator uses the
  indices it returns. The model takes the function from the keys to these indices as
  a parameter. torch promises a permutation of the positions that puts the keys in
  descending order; without \<^verbatim>\<open>stable=True\<close>, which the call does not pass, it
  promises nothing on the order of equal keys.
\<close>

definition valid_argsort_desc :: "(int list \<Rightarrow> nat list) \<Rightarrow> bool" where
  "valid_argsort_desc argsort_desc =
     (\<forall>keys. mset (argsort_desc keys) = mset [0..<length keys] \<and>
             sorted (rev (map ((!) keys) (argsort_desc keys))))"

text \<open>The tensors of an example \<open>x\<close>: \<^verbatim>\<open>x[0]\<close>, ..., \<^verbatim>\<open>x[4]\<close>.\<close>

definition x0 :: "'a example \<Rightarrow> int list" where
  "x0 x = fst x"

definition x1 :: "'a example \<Rightarrow> 'a tensor2" where
  "x1 x = fst (snd x)"

definition x2 :: "'a example \<Rightarrow> 'a tensor2" where
  "x2 x = fst (snd (snd x))"

definition x3 :: "'a example \<Rightarrow> 'a tensor2" where
  "x3 x = fst (snd (snd (snd x)))"

definition x4 :: "'a example \<Rightarrow> int list" where
  "x4 x = snd (snd (snd (snd x)))"

text \<open>A tensor of zeros, as \<^verbatim>\<open>torch.FloatTensor(n, k)\<close> is after \<^verbatim>\<open>zero_()\<close>.\<close>

definition zero_tensor :: "nat \<Rightarrow> nat \<Rightarrow> ('a::zero) tensor2" where
  "zero_tensor n k = \<lparr> size1 = k, rows = replicate n (replicate k 0) \<rparr>"

text \<open>
  One round of the loop, for the example \<open>row\<close>: what it writes at position \<open>i\<close>
  of the nine tensors, of which five were zero there before.
  \<^verbatim>\<open>
      phonemes = row[0]
      phonemes_padded[i, :phonemes.size(0)] = phonemes
      phonemes_lengths[i] = phonemes.size(0)

      spec = row[1]
      spec_padded[i, :, :spec.size(1)] = spec
      spec_lengths[i] = spec.size(1)

      ying = row[2]
      ying_padded[i, :, :ying.size(1)] = ying
      ying_lengths[i] = ying.size(1)

      wav = row[3]
      wav_padded[i, :, :wav.size(1)] = wav
      wav_lengths[i] = wav.size(1)

      phndur = row[4]
      phndur_padded[i, :phndur.size(0)] = phndur
  \<close>
\<close>

record 'a collated_row =
  phonemes_row :: "int list"
  phonemes_length :: int
  spec_slice :: "'a tensor2"
  spec_length :: int
  ying_slice :: "'a tensor2"
  ying_length :: int
  wav_slice :: "'a tensor2"
  wav_length :: int
  phndur_row :: "int list"

definition collate_row ::
  "nat \<Rightarrow> nat \<Rightarrow> nat \<Rightarrow> nat \<Rightarrow> nat \<Rightarrow> nat \<Rightarrow> nat \<Rightarrow> ('a::zero) example
     \<Rightarrow> error + 'a collated_row" where
  "collate_row max_phonemes_len spec_channels max_spec_len ying_channels max_ying_len
       max_wav_len max_phndur_len row =
     (case assign_prefix (replicate max_phonemes_len 0) (x0 row) of
        Inl e \<Rightarrow> Inl e
      | Inr p \<Rightarrow>
     (case assign_cols (zero_tensor spec_channels max_spec_len) (x1 row) of
        Inl e \<Rightarrow> Inl e
      | Inr s \<Rightarrow>
     (case assign_cols (zero_tensor ying_channels max_ying_len) (x2 row) of
        Inl e \<Rightarrow> Inl e
      | Inr y \<Rightarrow>
     (case assign_cols (zero_tensor 1 max_wav_len) (x3 row) of
        Inl e \<Rightarrow> Inl e
      | Inr w \<Rightarrow>
     (case assign_prefix (replicate max_phndur_len 0) (x4 row) of
        Inl e \<Rightarrow> Inl e
      | Inr d \<Rightarrow>
          Inr \<lparr> phonemes_row = p, phonemes_length = int (length (x0 row)),
                spec_slice = s, spec_length = int (size1 (x1 row)),
                ying_slice = y, ying_length = int (size1 (x2 row)),
                wav_slice = w, wav_length = int (size1 (x3 row)),
                phndur_row = d \<rparr>)))))"

text \<open>
  The loop \<^verbatim>\<open>for i in range(len(ids_sorted_decreasing))\<close> with
  \<^verbatim>\<open>row = batch[ids_sorted_decreasing[i]]\<close>, over the indices that are left; the
  result lists what was written at the positions \<open>i, i + 1, ...\<close>.
\<close>

fun collate_loop ::
  "('a example \<Rightarrow> error + 'a collated_row) \<Rightarrow> 'a example list \<Rightarrow> nat list
     \<Rightarrow> error + 'a collated_row list" where
  "collate_loop body batch [] = Inr []"
| "collate_loop body batch (k # ids) =
     (case getitem batch (int k) of
        Inl e \<Rightarrow> Inl e
      | Inr row \<Rightarrow>
          (case body row of
             Inl e \<Rightarrow> Inl e
           | Inr r \<Rightarrow>
               (case collate_loop body batch ids of
                  Inl e \<Rightarrow> Inl e
                | Inr rs \<Rightarrow> Inr (r # rs))))"

text \<open>
  \<^verbatim>\<open>__call__\<close>. The sort key is \<^verbatim>\<open>x[1].size(1)\<close>, the number of frames of the
  spectrogram. \<^verbatim>\<open>max\<close> of an empty list raises \<^verbatim>\<open>ValueError\<close>. The
  padded tensors get the channel counts of the first example of the batch, and one
  channel for the waveform. The return statement lists nine tensors:
  \<^verbatim>\<open>
    return phonemes_padded, phonemes_lengths, \
      spec_padded, spec_lengths, \
      ying_padded, ying_lengths, \
      wav_padded, wav_lengths, \
      phndur_padded
  \<close>
  The sort returns one index per example, so the loop writes every position of the
  tensors once, position \<open>i\<close> in round \<open>i\<close>.
\<close>

definition collate :: "(int list \<Rightarrow> nat list) \<Rightarrow> ('a::zero) example list \<Rightarrow> error + 'a torch_value list" where
  "collate argsort_desc batch =
     (let ids_sorted_decreasing = argsort_desc (map (\<lambda>x. int (size1 (x1 x))) batch) in
      if batch = [] then Inl ValueError
      else
        (let max_phonemes_len = Max (set (map (\<lambda>x. length (x0 x)) batch));
             max_spec_len = Max (set (map (\<lambda>x. size1 (x1 x)) batch));
             max_ying_len = Max (set (map (\<lambda>x. size1 (x2 x)) batch));
             max_wav_len = Max (set (map (\<lambda>x. size1 (x3 x)) batch));
             max_phndur_len = Max (set (map (\<lambda>x. length (x4 x)) batch))
         in
         (case collate_loop
                 (collate_row max_phonemes_len (size0 (x1 (hd batch))) max_spec_len
                    (size0 (x2 (hd batch))) max_ying_len max_wav_len max_phndur_len)
                 batch ids_sorted_decreasing of
            Inl e \<Rightarrow> Inl e
          | Inr written \<Rightarrow>
              Inr [LongTensor2 \<lparr> size1 = max_phonemes_len, rows = map phonemes_row written \<rparr>,
                   LongTensor1 (map phonemes_length written),
                   FloatTensor3 (map spec_slice written),
                   LongTensor1 (map spec_length written),
                   FloatTensor3 (map ying_slice written),
                   LongTensor1 (map ying_length written),
                   FloatTensor3 (map wav_slice written),
                   LongTensor1 (map wav_length written),
                   LongTensor2 \<lparr> size1 = max_phndur_len, rows = map phndur_row written \<rparr>])))"

text \<open>
  For the statements about the result: a list, and each row of a tensor, filled with
  zeros to a given length; the examples in the order of the sorted indices; and the
  one-dimensional tensors of a result, which are its length vectors.
\<close>

definition zero_padded :: "nat \<Rightarrow> ('a::zero) list \<Rightarrow> 'a list" where
  "zero_padded n xs = xs @ replicate (n - length xs) 0"

definition zero_padded_cols :: "nat \<Rightarrow> ('a::zero) tensor2 \<Rightarrow> 'a tensor2" where
  "zero_padded_cols n t = \<lparr> size1 = n, rows = map (zero_padded n) (rows t) \<rparr>"

definition sorted_examples :: "(int list \<Rightarrow> nat list) \<Rightarrow> 'a example list \<Rightarrow> 'a example list" where
  "sorted_examples argsort_desc batch =
     map ((!) batch) (argsort_desc (map (\<lambda>x. int (size1 (x1 x))) batch))"

fun length_vectors :: "'a torch_value list \<Rightarrow> int list list" where
  "length_vectors [] = []"
| "length_vectors (LongTensor1 v # out) = v # length_vectors out"
| "length_vectors (LongTensor2 t # out) = length_vectors out"
| "length_vectors (FloatTensor3 ts # out) = length_vectors out"

section \<open>Concrete inputs\<close>

text \<open>
  The inputs on which the statements below are evaluated. First a stand-in for torch's
  generator: the state counts the draws, and the \<open>k\<close>-th draw rotates \<open>0, ..., n - 1\<close>
  by \<open>k\<close> places.
\<close>

definition demo_seed :: "int \<Rightarrow> nat" where
  "demo_seed e = nat \<bar>e\<bar>"

definition demo_randperm :: "nat \<Rightarrow> nat \<Rightarrow> nat list \<times> nat" where
  "demo_randperm n g = (rotate (Suc g) [0..<n], Suc g)"

definition demo_sampler :: sampler where
  "demo_sampler =
     \<lparr> lengths = [5, 15, 15, 25, 25, 25], batch_size = 2, boundaries = [0, 10, 20, 30],
       num_replicas = 2, rank = 1, shuffle = True, epoch = 0,
       buckets = [[0], [1, 2], [3, 4, 5]], num_samples_per_bucket = [4, 4, 4],
       total_size = 12, num_samples = 6, batches = None \<rparr>"

text \<open>Small tensors to run the loader on: a spectrogram of two channels and three
  frames, a one-row pitch feature, and a waveform of seven samples.\<close>

definition demo_spec :: "int tensor2" where
  "demo_spec = \<lparr> size1 = 3, rows = [[1, 2, 3], [4, 5, 6]] \<rparr>"

definition demo_ying :: "int tensor2" where
  "demo_ying = \<lparr> size1 = 3, rows = [[7, 8, 9]] \<rparr>"

definition demo_wav :: "int tensor2" where
  "demo_wav = \<lparr> size1 = 7, rows = [[1, 2, 3, 4, 5, 6, 7]] \<rparr>"

text \<open>
  A sort to run the collator with: the positions ordered by descending key, equal keys
  in their order in the batch.
\<close>

definition demo_argsort_desc :: "int list \<Rightarrow> nat list" where
  "demo_argsort_desc keys = map snd (sort_key (\<lambda>p. - fst p) (zip keys [0..<length keys]))"

text \<open>Two examples: three text units and two frames, five text units and one frame.\<close>

definition demo_short_text :: "int example" where
  "demo_short_text =
     ([1, 2, 3], \<lparr> size1 = 2, rows = [[1, 2], [3, 4]] \<rparr>, \<lparr> size1 = 2, rows = [[5, 6]] \<rparr>,
      \<lparr> size1 = 4, rows = [[1, 2, 3, 4]] \<rparr>, [1, 1, 0])"

definition demo_long_text :: "int example" where
  "demo_long_text =
     ([4, 5, 6, 7, 8], \<lparr> size1 = 1, rows = [[7], [8]] \<rparr>, \<lparr> size1 = 1, rows = [[9]] \<rparr>,
      \<lparr> size1 = 2, rows = [[5, 6]] \<rparr>, [1, 0, 0, 0, 0])"

text \<open>A file system in which every file has 5120 bytes.\<close>

definition demo_getsize :: "string \<Rightarrow> error + int" where
  "demo_getsize p = Inr 5120"

section \<open>Verification\<close>

subsection \<open>Bucket lookup\<close>

text \<open>
  Inside the search, \<open>bisect_from\<close> reads \<open>bd\<close> only at positions between
  \<open>lo\<close> and \<open>hi\<close>, returns \<open>-1\<close> or an index of that range whose interval holds
  \<open>x\<close>, and does not miss an interval of the range that holds \<open>x\<close>.
\<close>

lemma bisect_from_inv:
  assumes "sorted bd" "0 \<le> lo" "hi \<le> int (length bd) - 1"
  shows "\<exists>r. bisect_from bd x lo hi = Inr r \<and>
           (r = - 1 \<or> (lo \<le> r \<and> r < hi \<and> bd ! nat r < x \<and> x \<le> bd ! (nat r + 1))) \<and>
           ((\<exists>k. lo \<le> k \<and> k < hi \<and> bd ! nat k < x \<and> x \<le> bd ! (nat k + 1)) \<longrightarrow> r \<noteq> - 1)"
  using assms
proof (induction bd x lo hi rule: bisect_from.induct)
  case (1 bd x lo hi)
  let ?mid = "(hi + lo) div 2"
  show ?case
  proof (cases "hi > lo")
    case False
    then show ?thesis by (subst bisect_from.simps) auto
  next
    case True
    then have mid: "lo \<le> ?mid" "?mid < hi" by auto
    with 1 have g1: "getitem bd ?mid = Inr (bd ! nat ?mid)"
      and g2: "getitem bd (?mid + 1) = Inr (bd ! nat (?mid + 1))"
      by (auto simp: getitem_def)
    show ?thesis
    proof (cases "bd ! nat ?mid < x")
      case lt: True
      show ?thesis
      proof (cases "x \<le> bd ! nat (?mid + 1)")
        case True
        have "nat (?mid + 1) = nat ?mid + 1" using mid 1(4) by auto
        with True lt mid g1 g2 \<open>hi > lo\<close> show ?thesis
          by (subst bisect_from.simps) auto
      next
        case False
        have ih: "\<exists>r. bisect_from bd x (?mid + 1) hi = Inr r \<and>
           (r = - 1 \<or> (?mid + 1 \<le> r \<and> r < hi \<and> bd ! nat r < x \<and> x \<le> bd ! (nat r + 1))) \<and>
           ((\<exists>k. ?mid + 1 \<le> k \<and> k < hi \<and> bd ! nat k < x \<and> x \<le> bd ! (nat k + 1)) \<longrightarrow> r \<noteq> - 1)"
          using 1(1)[OF True g1 lt g2 False] 1(3-5) mid by auto
        have excl: "\<And>k. lo \<le> k \<Longrightarrow> k < hi \<Longrightarrow> x \<le> bd ! (nat k + 1) \<Longrightarrow> ?mid + 1 \<le> k"
        proof (rule ccontr)
          fix k assume k: "lo \<le> k" "k < hi" "x \<le> bd ! (nat k + 1)" "\<not> ?mid + 1 \<le> k"
          then have "nat k + 1 \<le> nat (?mid + 1)" using 1(4) by auto
          moreover have "nat (?mid + 1) < length bd" using mid 1(4,5) by auto
          ultimately have "bd ! (nat k + 1) \<le> bd ! nat (?mid + 1)"
            using 1(3) by (simp add: sorted_nth_mono)
          with k False show False by simp
        qed
        from ih obtain r where r: "bisect_from bd x (?mid + 1) hi = Inr r"
          "r = - 1 \<or> (?mid + 1 \<le> r \<and> r < hi \<and> bd ! nat r < x \<and> x \<le> bd ! (nat r + 1))"
          "(\<exists>k. ?mid + 1 \<le> k \<and> k < hi \<and> bd ! nat k < x \<and> x \<le> bd ! (nat k + 1)) \<longrightarrow> r \<noteq> - 1"
          by blast
        have "bisect_from bd x lo hi = Inr r"
          using True g1 g2 lt False r(1) by (subst bisect_from.simps) simp
        moreover have "r = - 1 \<or> (lo \<le> r \<and> r < hi \<and> bd ! nat r < x \<and> x \<le> bd ! (nat r + 1))"
          using r(2) mid by auto
        moreover have "(\<exists>k. lo \<le> k \<and> k < hi \<and> bd ! nat k < x \<and> x \<le> bd ! (nat k + 1)) \<longrightarrow> r \<noteq> - 1"
          using r(3) excl by blast
        ultimately show ?thesis by blast
      qed
    next
      case ge: False
      have ih: "\<exists>r. bisect_from bd x lo ?mid = Inr r \<and>
           (r = - 1 \<or> (lo \<le> r \<and> r < ?mid \<and> bd ! nat r < x \<and> x \<le> bd ! (nat r + 1))) \<and>
           ((\<exists>k. lo \<le> k \<and> k < ?mid \<and> bd ! nat k < x \<and> x \<le> bd ! (nat k + 1)) \<longrightarrow> r \<noteq> - 1)"
        using 1(2)[OF True g1 ge] 1(3-5) mid by auto
      have excl: "\<And>k. lo \<le> k \<Longrightarrow> k < hi \<Longrightarrow> bd ! nat k < x \<Longrightarrow> k < ?mid"
      proof (rule ccontr)
        fix k assume k: "lo \<le> k" "k < hi" "bd ! nat k < x" "\<not> k < ?mid"
        then have "nat ?mid \<le> nat k" by auto
        moreover have "nat k < length bd" using k 1(4,5) by auto
        ultimately have "bd ! nat ?mid \<le> bd ! nat k"
          using 1(3) by (simp add: sorted_nth_mono)
        with k ge show False by simp
      qed
      from ih obtain r where r: "bisect_from bd x lo ?mid = Inr r"
          "r = - 1 \<or> (lo \<le> r \<and> r < ?mid \<and> bd ! nat r < x \<and> x \<le> bd ! (nat r + 1))"
          "(\<exists>k. lo \<le> k \<and> k < ?mid \<and> bd ! nat k < x \<and> x \<le> bd ! (nat k + 1)) \<longrightarrow> r \<noteq> - 1"
        by blast
      have "bisect_from bd x lo hi = Inr r"
        using True g1 ge r(1) by (subst bisect_from.simps) simp
      moreover have "r = - 1 \<or> (lo \<le> r \<and> r < hi \<and> bd ! nat r < x \<and> x \<le> bd ! (nat r + 1))"
        using r(2) mid by auto
      moreover have "(\<exists>k. lo \<le> k \<and> k < hi \<and> bd ! nat k < x \<and> x \<le> bd ! (nat k + 1)) \<longrightarrow> r \<noteq> - 1"
        using r(3) excl by blast
      ultimately show ?thesis by blast
    qed
  qed
qed

lemma bucket_exists:
  assumes "sorted bd" "bd \<noteq> []" "bd ! 0 < x" "x \<le> last bd"
  shows "\<exists>k. k + 1 < length bd \<and> bd ! k < x \<and> x \<le> bd ! (k + 1)"
proof -
  define j where "j = (LEAST j. j < length bd \<and> x \<le> bd ! j)"
  have ex: "length bd - 1 < length bd \<and> x \<le> bd ! (length bd - 1)"
    using assms by (simp add: last_conv_nth)
  have j: "j < length bd \<and> x \<le> bd ! j"
    unfolding j_def by (rule LeastI [of _ "length bd - 1"]) (rule ex)
  have "j \<noteq> 0" using j assms(3) by (cases j) auto
  then obtain k where k: "j = Suc k" by (cases j) auto
  have "\<not> (k < length bd \<and> x \<le> bd ! k)"
    using not_less_Least [of k "\<lambda>j. j < length bd \<and> x \<le> bd ! j"] k
    unfolding j_def by simp
  with j k show ?thesis by (intro exI [of _ k]) auto
qed

lemma bucket_unique:
  assumes "sorted bd"
    "k + 1 < length bd" "bd ! k < x" "x \<le> bd ! (k + 1)"
    "k' + 1 < length bd" "bd ! k' < x" "x \<le> bd ! (k' + 1)"
  shows "k = k'"
proof (rule ccontr)
  assume "k \<noteq> k'"
  then consider "k + 1 \<le> k'" | "k' + 1 \<le> k" by linarith
  then show False
  proof cases
    case 1
    then have "bd ! (k + 1) \<le> bd ! k'"
      using assms(1,5) by (simp add: sorted_nth_mono)
    with assms show False by simp
  next
    case 2
    then have "bd ! (k' + 1) \<le> bd ! k"
      using assms(1,2) by (simp add: sorted_nth_mono)
    with assms show False by simp
  qed
qed

lemma bisect_sorted:
  assumes "sorted bd" "bd \<noteq> []"
  shows "\<exists>r. bisect bd x = Inr r \<and>
           (r = - 1 \<longleftrightarrow> (x \<le> bd ! 0 \<or> last bd < x)) \<and>
           (r \<noteq> - 1 \<longrightarrow> 0 \<le> r \<and> nat r + 1 < length bd \<and>
              bd ! nat r < x \<and> x \<le> bd ! (nat r + 1)) \<and>
           (\<forall>k. k + 1 < length bd \<and> bd ! k < x \<and> x \<le> bd ! (k + 1)
              \<longrightarrow> r = int k)"
proof -
  from bisect_from_inv [OF assms(1), of 0 "int (length bd) - 1" x]
  obtain r where r: "bisect bd x = Inr r"
    "r = - 1 \<or> (0 \<le> r \<and> r < int (length bd) - 1 \<and>
        bd ! nat r < x \<and> x \<le> bd ! (nat r + 1))"
    "(\<exists>k. 0 \<le> k \<and> k < int (length bd) - 1 \<and>
        bd ! nat k < x \<and> x \<le> bd ! (nat k + 1)) \<longrightarrow> r \<noteq> - 1"
    unfolding bisect_def by auto
  have found: "r \<noteq> - 1 \<Longrightarrow> 0 \<le> r \<and> nat r + 1 < length bd \<and>
      bd ! nat r < x \<and> x \<le> bd ! (nat r + 1)"
    using r(2) by auto
  have hit: "r = int k" if k: "k + 1 < length bd" "bd ! k < x"
      "x \<le> bd ! (k + 1)" for k
  proof -
    have "0 \<le> int k \<and> int k < int (length bd) - 1 \<and>
        bd ! nat (int k) < x \<and> x \<le> bd ! (nat (int k) + 1)"
      using k by auto
    then have "r \<noteq> - 1" using r(3) by blast
    from found [OF this] have "nat r = k"
      using bucket_unique [OF assms(1), of "nat r" x k] k by simp
    with found [OF \<open>r \<noteq> - 1\<close>] show ?thesis by auto
  qed
  have none: "r = - 1 \<longleftrightarrow> (x \<le> bd ! 0 \<or> last bd < x)"
  proof
    assume m: "r = - 1"
    show "x \<le> bd ! 0 \<or> last bd < x"
    proof (rule ccontr)
      assume "\<not> (x \<le> bd ! 0 \<or> last bd < x)"
      then obtain k where "k + 1 < length bd" "bd ! k < x"
        "x \<le> bd ! (k + 1)"
        using bucket_exists [OF assms, of x] by auto
      from hit [OF this] m show False by simp
    qed
  next
    assume out: "x \<le> bd ! 0 \<or> last bd < x"
    show "r = - 1"
    proof (rule ccontr)
      assume "r \<noteq> - 1"
      from found [OF this] have f: "nat r + 1 < length bd"
        "bd ! nat r < x" "x \<le> bd ! (nat r + 1)" by auto
      have "bd ! 0 \<le> bd ! nat r"
        using assms(1) f(1) by (simp add: sorted_nth_mono)
      moreover have "bd ! (nat r + 1) \<le> bd ! (length bd - 1)"
        using assms(1) f(1) by (intro sorted_nth_mono) auto
      ultimately show False using out f assms(2) by (simp add: last_conv_nth)
    qed
  qed
  show ?thesis using r(1) none found hit by blast
qed

text \<open>
  Claim C3. For an ascending, non-empty list of boundaries \<open>bd\<close> and every length
  \<open>x\<close>, the lookup \<^verbatim>\<open>_bisect(x)\<close> raises nothing and returns some \<open>r\<close> such
  that: \<open>r\<close> is the discard marker \<open>-1\<close> exactly when \<open>x \<le> bd[0]\<close> or
  \<open>x > bd[-1]\<close>; otherwise \<open>r\<close> is an index with \<open>bd[r] < x \<le> bd[r + 1]\<close>; and
  every index \<open>k\<close> with \<open>bd[k] < x \<le> bd[k + 1]\<close> is the one returned, so the bucket
  is unique and the right-inclusive edges go to the lower bucket.
\<close>

theorem bisect_bucket_lookup:
  assumes "sorted bd" "bd \<noteq> []"
  shows "\<exists>r. bisect bd x = Inr r \<and>
           (r = - 1 \<longleftrightarrow> (x \<le> bd ! 0 \<or> last bd < x)) \<and>
           (r \<noteq> - 1 \<longrightarrow> 0 \<le> r \<and> nat r + 1 < length bd \<and>
              bd ! nat r < x \<and> x \<le> bd ! (nat r + 1)) \<and>
           (\<forall>k. k + 1 < length bd \<and> bd ! k < x \<and> x \<le> bd ! (k + 1)
              \<longrightarrow> r = int k)"
  using assms by (rule bisect_sorted)

theorem bisect_bucket_lookup_witness:
  "sorted [0, 10, 20, 30 :: int] \<and> [0, 10, 20, 30 :: int] \<noteq> [] \<and>
   bisect [0, 10, 20, 30] 20 = Inr 1 \<and> bisect [0, 10, 20, 30] 0 = Inr (- 1)"
proof -
  have s: "sorted [0, 10, 20, 30 :: int]" and n: "[0, 10, 20, 30 :: int] \<noteq> []"
    by simp_all
  from bisect_bucket_lookup [OF s n, of 20]
  obtain r where r: "bisect [0, 10, 20, 30] 20 = Inr r"
    "\<forall>k. k + 1 < length [0, 10, 20, 30 :: int] \<and> [0, 10, 20, 30 :: int] ! k < 20 \<and>
       20 \<le> [0, 10, 20, 30 :: int] ! (k + 1) \<longrightarrow> r = int k"
    by blast
  from r(2) have "r = int 1" by (rule allE [of _ 1]) simp
  with r(1) have a: "bisect [0, 10, 20, 30] 20 = Inr 1" by simp
  from bisect_bucket_lookup [OF s n, of 0]
  obtain r' where r': "bisect [0, 10, 20, 30] 0 = Inr r'"
    "r' = - 1 \<longleftrightarrow> (0 \<le> [0, 10, 20, 30 :: int] ! 0 \<or> last [0, 10, 20, 30 :: int] < 0)"
    by blast
  from r' have b: "bisect [0, 10, 20, 30] 0 = Inr (- 1)" by simp
  from s n a b show ?thesis by blast
qed

subsection \<open>Construction\<close>

text \<open>
  Without any assumption on the order of the boundaries, the search stays inside the
  list, so the three loops of \<^verbatim>\<open>_create_buckets\<close> raise nothing (unless
  \<^verbatim>\<open>num_replicas * batch_size\<close> is zero) and leave no empty bucket.
\<close>

lemma bisect_from_range:
  assumes "0 \<le> lo" "hi \<le> int (length bd) - 1"
  shows "\<exists>r. bisect_from bd x lo hi = Inr r \<and> (r = - 1 \<or> (lo \<le> r \<and> r < hi))"
  using assms
proof (induction bd x lo hi rule: bisect_from.induct)
  case (1 bd x lo hi)
  let ?mid = "(hi + lo) div 2"
  show ?case
  proof (cases "hi > lo")
    case False
    then show ?thesis by (subst bisect_from.simps) simp
  next
    case True
    then have mid: "lo \<le> ?mid" "?mid < hi" by auto
    with 1(3,4) have g1: "getitem bd ?mid = Inr (bd ! nat ?mid)"
      and g2: "getitem bd (?mid + 1) = Inr (bd ! nat (?mid + 1))"
      by (auto simp: getitem_def)
    show ?thesis
    proof (cases "bd ! nat ?mid < x")
      case lt: True
      show ?thesis
      proof (cases "x \<le> bd ! nat (?mid + 1)")
        case True
        with lt mid g1 g2 \<open>hi > lo\<close> show ?thesis
          by (subst bisect_from.simps) simp
      next
        case False
        have "\<exists>r. bisect_from bd x (?mid + 1) hi = Inr r \<and> (r = - 1 \<or> (?mid + 1 \<le> r \<and> r < hi))"
          using 1(1)[OF True g1 lt g2 False] 1(3,4) mid by auto
        then obtain r where "bisect_from bd x (?mid + 1) hi = Inr r"
          "r = - 1 \<or> (?mid + 1 \<le> r \<and> r < hi)" by blast
        moreover from this have "bisect_from bd x lo hi = Inr r"
          using True g1 g2 lt False by (subst bisect_from.simps) simp
        ultimately show ?thesis using mid by auto
      qed
    next
      case ge: False
      have "\<exists>r. bisect_from bd x lo ?mid = Inr r \<and> (r = - 1 \<or> (lo \<le> r \<and> r < ?mid))"
        using 1(2)[OF True g1 ge] 1(3,4) mid by auto
      then obtain r where "bisect_from bd x lo ?mid = Inr r"
        "r = - 1 \<or> (lo \<le> r \<and> r < ?mid)" by blast
      moreover from this have "bisect_from bd x lo hi = Inr r"
        using True g1 ge by (subst bisect_from.simps) simp
      ultimately show ?thesis using mid by auto
    qed
  qed
qed

lemma bisect_range:
  "\<exists>r. bisect bd x = Inr r \<and> (r = - 1 \<or> (0 \<le> r \<and> r < int (length bd) - 1))"
  unfolding bisect_def by (rule bisect_from_range) simp_all

lemma append_at_ok:
  "0 \<le> idx \<Longrightarrow> idx < int (length bks) \<Longrightarrow>
   \<exists>bks'. append_at bks idx i = Inr bks' \<and> length bks' = length bks"
  by (simp add: append_at_def getitem_def)

lemma assign_buckets_ok:
  "int (length bks) = int (length bd) - 1 \<or> (bd = [] \<and> bks = []) \<Longrightarrow>
   \<exists>bks'. assign_buckets bd lens i bks = Inr bks' \<and> length bks' = length bks"
proof (induction lens arbitrary: i bks)
  case Nil
  then show ?case by simp
next
  case (Cons l lens)
  from bisect_range [of bd l] obtain r where r: "bisect bd l = Inr r"
    "r = - 1 \<or> (0 \<le> r \<and> r < int (length bd) - 1)" by blast
  show ?case
  proof (cases "r = - 1")
    case True
    with r Cons show ?thesis by simp
  next
    case False
    with r Cons.prems have "0 \<le> r" "r < int (length bks)" by auto
    from append_at_ok [OF this, of i] obtain bks' where
      b: "append_at bks r i = Inr bks'" "length bks' = length bks" by blast
    with Cons.prems have "int (length bks') = int (length bd) - 1 \<or> (bd = [] \<and> bks' = [])"
      by auto
    from Cons.IH [OF this, of "Suc i"] r(1) False b show ?thesis by simp
  qed
qed

lemma assign_buckets_none:
  "\<forall>l\<in>set lens. bisect bd l = Inr (- 1) \<Longrightarrow> assign_buckets bd lens i bks = Inr bks"
  by (induction lens arbitrary: i) simp_all

lemma prune_ok:
  "n \<le> length bks \<Longrightarrow> length bd = Suc (length bks) \<Longrightarrow>
   \<exists>bd'. prune n bks bd = Inr (filter (\<lambda>b. b \<noteq> []) (take n bks) @ drop n bks, bd')"
proof (induction n arbitrary: bks bd)
  case 0
  then show ?case by simp
next
  case (Suc n)
  then have n: "n < length bks" by simp
  then have g: "getitem bks (int n) = Inr (bks ! n)" by (simp add: getitem_def)
  show ?case
  proof (cases "bks ! n = []")
    case True
    let ?bks = "take n bks @ drop (Suc n) bks"
    let ?bd = "take (Suc n) bd @ drop (Suc (Suc n)) bd"
    have p1: "pop bks n = Inr ?bks" using n by (simp add: pop_def)
    have p2: "pop bd (Suc n) = Inr ?bd" using n Suc.prems by (simp add: pop_def)
    have "n \<le> length ?bks" "length ?bd = Suc (length ?bks)" using n Suc.prems by auto
    from Suc.IH [OF this] obtain bd' where
      ih: "prune n ?bks ?bd = Inr (filter (\<lambda>b. b \<noteq> []) (take n ?bks) @ drop n ?bks, bd')" by blast
    have t: "take n ?bks = take n bks" "drop n ?bks = drop (Suc n) bks" using n by auto
    have pr: "prune n ?bks ?bd = Inr (filter (\<lambda>b. b \<noteq> []) (take n bks) @ drop (Suc n) bks, bd')"
      using ih by (simp only: t)
    have f: "filter (\<lambda>b. b \<noteq> []) (take (Suc n) bks) = filter (\<lambda>b. b \<noteq> []) (take n bks)"
      using n True by (simp add: take_Suc_conv_app_nth)
    have "prune (Suc n) bks bd = prune n ?bks ?bd"
      using g True p1 p2 by simp
    with pr f show ?thesis by simp
  next
    case False
    from Suc.IH [of bks bd] Suc.prems n obtain bd' where
      "prune n bks bd = Inr (filter (\<lambda>b. b \<noteq> []) (take n bks) @ drop n bks, bd')" by auto
    moreover have "filter (\<lambda>b. b \<noteq> []) (take (Suc n) bks) @ drop (Suc n) bks
        = filter (\<lambda>b. b \<noteq> []) (take n bks) @ drop n bks"
      using n False by (simp add: take_Suc_conv_app_nth Cons_nth_drop_Suc)
    ultimately show ?thesis using g False by simp
  qed
qed

lemma pad_counts_ok:
  "nr * bs \<noteq> 0 \<Longrightarrow>
   pad_counts nr bs bks = Inr (map (\<lambda>b. padded_size (nr * bs) (int (length b))) bks)"
  by (induction bks) simp_all

lemma create_buckets_ok:
  assumes "nr * bs \<noteq> 0"
  shows "\<exists>bks bd'. create_buckets lens bd nr bs =
            Inr (bks, bd', map (\<lambda>b. padded_size (nr * bs) (int (length b))) bks) \<and>
          (\<forall>b\<in>set bks. b \<noteq> [])"
proof -
  let ?init = "replicate (nat (int (length bd) - 1)) ([] :: nat list)"
  have "int (length ?init) = int (length bd) - 1 \<or> (bd = [] \<and> ?init = [])"
    by (cases bd) auto
  from assign_buckets_ok [OF this, of lens 0] obtain bks0 where
    a: "assign_buckets bd lens 0 ?init = Inr bks0" "length bks0 = length ?init" by blast
  have "\<exists>bd'. prune (length bks0) bks0 bd = Inr (filter (\<lambda>b. b \<noteq> []) bks0, bd')"
  proof (cases bd)
    case Nil
    with a show ?thesis by simp
  next
    case (Cons b bs')
    with a have "length bd = Suc (length bks0)" by simp
    from prune_ok [OF le_refl this] show ?thesis by simp
  qed
  then obtain bd' where p: "prune (length bks0) bks0 bd = Inr (filter (\<lambda>b. b \<noteq> []) bks0, bd')"
    by blast
  show ?thesis
    using a(1) p pad_counts_ok [OF assms, of "filter (\<lambda>b. b \<noteq> []) bks0"]
    by (simp add: create_buckets_def)
qed

lemma create_buckets_empty:
  assumes "\<forall>l\<in>set lens. bisect bd l = Inr (- 1)"
  shows "\<exists>bd'. create_buckets lens bd nr bs = Inr ([], bd', [])"
proof -
  let ?init = "replicate (nat (int (length bd) - 1)) ([] :: nat list)"
  have a: "assign_buckets bd lens 0 ?init = Inr ?init"
    by (rule assign_buckets_none [OF assms])
  have "\<exists>bd'. prune (length ?init) ?init bd = Inr (filter (\<lambda>b. b \<noteq> []) ?init, bd')"
  proof (cases bd)
    case Nil
    then show ?thesis by simp
  next
    case (Cons b bs')
    then have "length bd = Suc (length ?init)" by simp
    from prune_ok [OF le_refl this] show ?thesis by simp
  qed
  moreover have "filter (\<lambda>b. b \<noteq> []) ?init = []" by (induction "nat (int (length bd) - 1)") auto
  ultimately show ?thesis using a by (auto simp: create_buckets_def)
qed

lemma padded_size_ge: "0 < T \<Longrightarrow> n \<le> padded_size T n"
  by (simp add: padded_size_def)

lemma padded_size_dvd: "T dvd padded_size T n"
proof -
  have "(n + (T - n mod T) mod T) mod T = 0"
    by (simp add: mod_simps)
  then show ?thesis by (simp add: padded_size_def mod_eq_0_iff_dvd)
qed

lemma init_ok:
  assumes "0 \<le> rk" "rk < nr" "0 < bs"
  shows "\<exists>bks bd'. init lens bs bd nr rk sh =
            Inr \<lparr> lengths = lens, batch_size = bs, boundaries = bd', num_replicas = nr,
                  rank = rk, shuffle = sh, epoch = 0, buckets = bks,
                  num_samples_per_bucket = map (\<lambda>b. padded_size (nr * bs) (int (length b))) bks,
                  total_size = sum_list (map (\<lambda>b. padded_size (nr * bs) (int (length b))) bks),
                  num_samples = sum_list (map (\<lambda>b. padded_size (nr * bs) (int (length b))) bks) div nr,
                  batches = None \<rparr> \<and>
          (\<forall>b\<in>set bks. b \<noteq> [])"
proof -
  have "nr * bs \<noteq> 0" using assms by simp
  from create_buckets_ok [OF this, of lens bd] obtain bks bd' where
    "create_buckets lens bd nr bs =
       Inr (bks, bd', map (\<lambda>b. padded_size (nr * bs) (int (length b))) bks)"
    "\<forall>b\<in>set bks. b \<noteq> []" by blast
  then show ?thesis using assms by (simp add: init_def)
qed

lemma init_empty:
  assumes "\<forall>l\<in>set lens. bisect bd l = Inr (- 1)" "0 \<le> rk" "rk < nr"
  shows "\<exists>bd'. init lens bs bd nr rk sh =
            Inr \<lparr> lengths = lens, batch_size = bs, boundaries = bd', num_replicas = nr,
                  rank = rk, shuffle = sh, epoch = 0, buckets = [],
                  num_samples_per_bucket = [], total_size = 0, num_samples = 0,
                  batches = None \<rparr>"
proof -
  from create_buckets_empty [OF assms(1), of nr bs] obtain bd' where
    "create_buckets lens bd nr bs = Inr ([], bd', [])" by blast
  then show ?thesis using assms(2,3) by (simp add: init_def)
qed

subsection \<open>One pass of \<^verbatim>\<open>__iter__\<close>\<close>

lemma mset_rotate_eq: "mset (rotate n xs) = mset xs"
proof (induction n)
  case 0
  then show ?case by simp
next
  case (Suc n)
  have "mset (rotate1 ys) = mset ys" for ys :: "'a list" by (cases ys) simp_all
  with Suc show ?case by simp
qed

lemma valid_demo_randperm: "valid_randperm demo_randperm"
  unfolding valid_randperm_def demo_randperm_def fst_conv by (intro allI mset_rotate_eq)

lemma draw_indices_ok:
  assumes "valid_randperm rp"
  shows "list_all2 (\<lambda>b ids. mset ids = mset [0..<length b]) bks (fst (draw_indices rp sh bks g))"
proof (induction bks arbitrary: g)
  case Nil
  then show ?case by simp
next
  case (Cons b bks)
  show ?case
  proof (cases sh)
    case True
    obtain p g' where p: "rp (length b) g = (p, g')" by (cases "rp (length b) g")
    obtain ps g'' where ps: "draw_indices rp sh bks g' = (ps, g'')"
      by (cases "draw_indices rp sh bks g'")
    have "mset (fst (rp (length b) g)) = mset [0..<length b]"
      using assms unfolding valid_randperm_def by blast
    with p have "mset p = mset [0..<length b]" by simp
    moreover have "list_all2 (\<lambda>b ids. mset ids = mset [0..<length b]) bks ps"
      using Cons [of g'] ps by simp
    ultimately show ?thesis using True p ps by simp
  next
    case False
    obtain ps g' where ps: "draw_indices rp sh bks g = (ps, g')"
      by (cases "draw_indices rp sh bks g")
    have "list_all2 (\<lambda>b ids. mset ids = mset [0..<length b]) bks ps"
      using Cons [of g] ps by simp
    then show ?thesis using False ps by simp
  qed
qed

lemma extend_ids_ok:
  assumes "ids \<noteq> []" "int (length ids) \<le> nsb"
  shows "\<exists>P. extend_ids ids nsb (int (length ids)) = Inr P \<and> int (length P) = nsb \<and> set P \<subseteq> set ids"
proof -
  let ?len = "int (length ids)"
  let ?rem = "nsb - ?len"
  let ?P = "ids @ concat (replicate (nat (?rem div ?len)) ids) @ slice_to ids (?rem mod ?len)"
  have len: "0 < ?len" using assms(1) by simp
  have rem: "0 \<le> ?rem" using assms(2) by simp
  have m: "0 \<le> ?rem mod ?len" "?rem mod ?len < ?len" using len by simp_all
  have d: "0 \<le> ?rem div ?len" using len rem by (simp add: pos_imp_zdiv_nonneg_iff)
  have s: "slice_to ids (?rem mod ?len) = take (nat (?rem mod ?len)) ids"
    using m by (simp add: slice_to_def)
  have l3: "int (length (slice_to ids (?rem mod ?len))) = ?rem mod ?len"
    using m unfolding s by simp
  have l2: "int (length (concat (replicate (nat (?rem div ?len)) ids))) = (?rem div ?len) * ?len"
    using d by (simp add: length_concat sum_list_replicate)
  have "int (length ?P) = ?len + (?rem div ?len) * ?len + ?rem mod ?len"
    using l2 l3 by simp
  also have "\<dots> = ?len + ?rem" by (simp only: add.assoc div_mult_mod_eq)
  finally have L: "int (length ?P) = nsb" by simp
  have S: "set ?P \<subseteq> set ids"
    unfolding s using set_take_subset [of "nat (?rem mod ?len)" ids] by auto
  have "extend_ids ids nsb ?len = Inr ?P"
    using len by (simp add: extend_ids_def Let_def)
  with L S show ?thesis by blast
qed

lemma ceil_div_less_iff:
  fixes j m w :: nat
  assumes "0 < w"
  shows "j < (m + w - 1) div w \<longleftrightarrow> j * w < m"
proof -
  have "j < (m + w - 1) div w \<longleftrightarrow> Suc j \<le> (m + w - 1) div w" by auto
  also have "\<dots> \<longleftrightarrow> Suc j * w \<le> m + w - 1"
    using assms by (simp add: less_eq_div_iff_mult_less_eq)
  also have "\<dots> \<longleftrightarrow> j * w < m" using assms by auto
  finally show ?thesis .
qed

lemma slice_from_step_pos:
  fixes r w :: nat
  assumes "0 < w"
  shows "slice_from_step xs (int r) (int w) =
           Inr (map (\<lambda>j. xs ! (r + j * w)) [0..<(length xs - r + w - 1) div w])"
proof (cases "r \<le> length xs")
  case True
  then have s: "min (int r) (int (length xs)) = int r" by simp
  have c: "nat ((int (length xs) - int r + int w - 1) div int w) = (length xs - r + w - 1) div w"
  proof -
    have "int (length xs) - int r + int w - 1 = int (length xs - r + w - 1)"
      using True assms by (simp add: of_nat_diff)
    then show ?thesis by (simp add: zdiv_int [symmetric] del: of_nat_diff)
  qed
  have e: "\<And>j. nat (int r + int j * int w) = r + j * w"
    by (simp add: nat_add_distrib nat_mult_distrib)
  show ?thesis
    using assms True by (simp add: slice_from_step_def Let_def s c e del: of_nat_diff)
next
  case False
  then have s: "min (int r) (int (length xs)) = int (length xs)" by simp
  have "(length xs - r + w - 1) div w = 0" using False assms by simp
  moreover have "nat ((int w - 1) div int w) = 0" using assms by simp
  ultimately show ?thesis
    using assms by (simp add: slice_from_step_def Let_def s)
qed

lemma residue_positions:
  fixes r w n :: nat
  assumes "0 < w" "r < w"
  shows "filter (\<lambda>i. i mod w = r) [0..<n] = map (\<lambda>j. r + j * w) [0..<(n - r + w - 1) div w]"
proof (rule sorted_distinct_set_unique)
  show "sorted (filter (\<lambda>i. i mod w = r) [0..<n])" by (rule sorted_wrt_filter) simp
  show "distinct (filter (\<lambda>i. i mod w = r) [0..<n])" by simp
  have mono: "strict_mono (\<lambda>j. r + j * w)"
    using assms by (auto simp: strict_mono_def)
  have "sorted_wrt (<) (map (\<lambda>j. r + j * w) [0..<(n - r + w - 1) div w])"
    using assms by (simp add: sorted_wrt_map sorted_wrt_iff_nth_less)
  then show "sorted (map (\<lambda>j. r + j * w) [0..<(n - r + w - 1) div w])"
    and "distinct (map (\<lambda>j. r + j * w) [0..<(n - r + w - 1) div w])"
    by (simp_all add: strict_sorted_iff)
  show "set (filter (\<lambda>i. i mod w = r) [0..<n]) = set (map (\<lambda>j. r + j * w) [0..<(n - r + w - 1) div w])"
  proof (intro set_eqI iffI)
    fix i assume "i \<in> set (filter (\<lambda>i. i mod w = r) [0..<n])"
    then have i: "i < n" "i mod w = r" by auto
    then have eq: "i = r + (i div w) * w" by (metis add.commute div_mult_mod_eq)
    then have "(i div w) * w < n - r" using i by linarith
    then have "i div w < (n - r + w - 1) div w"
      by (simp only: ceil_div_less_iff [OF assms(1)])
    with eq show "i \<in> set (map (\<lambda>j. r + j * w) [0..<(n - r + w - 1) div w])"
      by (auto simp: image_iff intro!: bexI [of _ "i div w"])
  next
    fix i assume "i \<in> set (map (\<lambda>j. r + j * w) [0..<(n - r + w - 1) div w])"
    then have "i \<in> (\<lambda>j. r + j * w) ` {0..<(n - r + w - 1) div w}"
      by (simp only: set_map set_upt)
    then obtain j where "j \<in> {0..<(n - r + w - 1) div w}" and ji: "i = r + j * w"
      by (rule imageE)
    then have j: "i = r + j * w" "j < (n - r + w - 1) div w" by simp_all
    then have "j * w < n - r" by (simp only: ceil_div_less_iff [OF assms(1)])
    with j assms show "i \<in> set (filter (\<lambda>i. i mod w = r) [0..<n])" by auto
  qed
qed

lemma subsample_residues:
  fixes r w :: nat
  assumes "0 < w" "r < w"
  shows "subsample P (int r) (int w) = Inr (map ((!) P) (filter (\<lambda>i. i mod w = r) [0..<length P]))"
  unfolding subsample_def slice_from_step_pos [OF assms(1)] residue_positions [OF assms]
  by (simp add: comp_def)

lemma residue_count:
  fixes r w q :: nat
  assumes "0 < w" "r < w"
  shows "length (filter (\<lambda>i. i mod w = r) [0..<q * w]) = q"
proof -
  have "(q * w - r + w - 1) div w = q"
  proof (cases "q = 0")
    case True
    then show ?thesis using assms by simp
  next
    case False
    then have "w \<le> q * w" by (cases q) simp_all
    with assms(2) have "r < q * w" by (rule less_le_trans)
    then have "q * w - r + w - 1 = q * w + (w - 1 - r)" using assms by simp
    moreover have "(q * w + (w - 1 - r)) div w = q + (w - 1 - r) div w"
      using assms(1) by (intro div_mult_self3) simp
    moreover have "(w - 1 - r) div w = 0" using assms by (intro div_less) simp
    ultimately show ?thesis by simp
  qed
  then show ?thesis unfolding residue_positions [OF assms] by simp
qed

lemma gather_ok:
  "\<forall>i\<in>set idxs. i < length xs \<Longrightarrow> gather xs idxs = Inr (map ((!) xs) idxs)"
  by (induction idxs) (simp_all add: getitem_def)

lemma set_slice_subset: "set (slice xs a b) \<subseteq> set xs"
proof -
  have "set (take k (drop m xs)) \<subseteq> set xs" for k m
    using set_take_subset [of k "drop m xs"] set_drop_subset [of m xs] by blast
  then show ?thesis unfolding slice_def Let_def .
qed

lemma batch_loop_ok:
  assumes "\<forall>i\<in>set ids. i < length bucket"
  shows "\<exists>bl. batch_loop bucket ids bs js = Inr bl \<and> length bl = length js"
proof (induction js)
  case Nil
  then show ?case by simp
next
  case (Cons j js)
  have "\<forall>i\<in>set (slice ids (int j * bs) ((int j + 1) * bs)). i < length bucket"
    using assms set_slice_subset [of ids] by blast
  from gather_ok [OF this] have
    g: "gather bucket (slice ids (int j * bs) ((int j + 1) * bs)) =
          Inr (map ((!) bucket) (slice ids (int j * bs) ((int j + 1) * bs)))" .
  from Cons obtain bl where "batch_loop bucket ids bs js = Inr bl" "length bl = length js"
    by blast
  with g show ?case by simp
qed

lemma make_batches_ok:
  assumes "\<forall>i\<in>set ids. i < length bucket" "0 < bs"
  shows "\<exists>bl. make_batches bucket ids bs = Inr bl \<and> int (length bl) = int (length ids) div bs"
proof -
  from batch_loop_ok [OF assms(1), of bs "[0..<nat (int (length ids) div bs)]"]
  obtain bl where "batch_loop bucket ids bs [0..<nat (int (length ids) div bs)] = Inr bl"
    "length bl = nat (int (length ids) div bs)" by auto
  moreover have "0 \<le> int (length ids) div bs" using assms(2) by (simp add: pos_imp_zdiv_nonneg_iff)
  ultimately show ?thesis using assms(2) by (simp add: make_batches_def)
qed

lemma bucket_batches_ok:
  assumes rk: "0 \<le> rk" "rk < nr" and bs: "0 < bs" and ne: "bucket \<noteq> []"
    and ids: "mset ids = mset [0..<length bucket]"
  shows "\<exists>bl. bucket_batches rk nr bs bucket ids (padded_size (nr * bs) (int (length bucket))) = Inr bl \<and>
           int (length bl) * (nr * bs) = padded_size (nr * bs) (int (length bucket))"
proof -
  let ?T = "nr * bs"
  let ?nsb = "padded_size ?T (int (length bucket))"
  have T: "0 < ?T" using rk bs by simp
  have len: "length ids = length bucket" using ids by (metis length_upt mset_eq_length minus_nat.diff_0)
  have sids: "set ids = {0..<length bucket}" using ids by (metis mset_eq_setD set_upt)
  have "ids \<noteq> []" using len ne by auto
  moreover have "int (length ids) \<le> ?nsb" using padded_size_ge [OF T] len by simp
  ultimately obtain P where P: "extend_ids ids ?nsb (int (length ids)) = Inr P"
    "int (length P) = ?nsb" "set P \<subseteq> set ids"
    using extend_ids_ok by blast
  obtain q where q: "?nsb = ?T * q" using padded_size_dvd [of ?T] by (auto simp: dvd_def)
  have q0: "0 \<le> q"
  proof -
    have "0 \<le> ?T * q" using P(2) q by (metis of_nat_0_le_iff)
    with T show ?thesis by (simp add: zero_le_mult_iff)
  qed
  define r w where "r = nat rk" and "w = nat nr"
  have rw: "0 < w" "r < w" "int r = rk" "int w = nr" using rk by (simp_all add: r_def w_def)
  have lP: "length P = (nat q * nat bs) * w"
  proof -
    have "int (length P) = int ((nat q * nat bs) * w)"
      using P(2) q q0 bs rw by (simp add: ac_simps)
    then show ?thesis by (simp only: of_nat_eq_iff)
  qed
  let ?M = "map ((!) P) (filter (\<lambda>i. i mod w = r) [0..<length P])"
  have M: "subsample P rk nr = Inr ?M"
    using subsample_residues [OF rw(1,2), of P] rw by simp
  have lM: "length ?M = nat q * nat bs"
    using residue_count [OF rw(1,2), of "nat q * nat bs"] lP by simp
  have "set ?M \<subseteq> set P" by (auto simp: subset_iff)
  with P(3) sids have "\<forall>i\<in>set ?M. i < length bucket" by (metis atLeastLessThan_iff subsetD)
  from make_batches_ok [OF this bs] obtain bl where
    bl: "make_batches bucket ?M bs = Inr bl" "int (length bl) = int (length ?M) div bs" by blast
  have "int (length ?M) = q * bs" using lM q0 bs by simp
  with bl(2) bs have "int (length bl) = q" by simp
  then have "int (length bl) * ?T = ?nsb" using q by (simp add: ac_simps)
  moreover have "bucket_batches rk nr bs bucket ids ?nsb = Inr bl"
    using P(1) M bl(1) len by (simp add: bucket_batches_def)
  ultimately show ?thesis by blast
qed

lemma bucket_loop_ok:
  assumes rk: "0 \<le> rk" "rk < nr" and bs: "0 < bs"
    and rel: "list_all2 (\<lambda>b ids. mset ids = mset [0..<length b]) bks idxs"
    and ne: "\<forall>b\<in>set bks. b \<noteq> []"
    and ns: "drop i ns = map (\<lambda>b. padded_size (nr * bs) (int (length b))) bks"
  shows "\<exists>bl. bucket_loop rk nr bs ns i (zip bks idxs) = Inr bl \<and>
           int (length bl) * (nr * bs) = sum_list (drop i ns)"
  using rel ne ns
proof (induction bks idxs arbitrary: i rule: list_all2_induct)
  case Nil
  then show ?case by simp
next
  case (Cons b bks ids idxs)
  let ?p = "padded_size (nr * bs) (int (length b))"
  from Cons.prems(2) have d: "drop i ns = ?p # map (\<lambda>b. padded_size (nr * bs) (int (length b))) bks"
    by simp
  then have i: "i < length ns" by (cases "i < length ns") auto
  have nth: "ns ! i = ?p" using d i by (metis Cons_nth_drop_Suc list.inject)
  have d': "drop (Suc i) ns = map (\<lambda>b. padded_size (nr * bs) (int (length b))) bks"
    using d i by (metis Cons_nth_drop_Suc list.inject)
  have g: "getitem ns (int i) = Inr ?p" using i nth by (simp add: getitem_def)
  from Cons.prems(1) have "b \<noteq> []" "\<forall>b\<in>set bks. b \<noteq> []" by simp_all
  from bucket_batches_ok [OF rk bs this(1) Cons.hyps(1)] obtain here where
    h: "bucket_batches rk nr bs b ids ?p = Inr here" "int (length here) * (nr * bs) = ?p" by blast
  from Cons.IH [OF \<open>\<forall>b\<in>set bks. b \<noteq> []\<close> d'] obtain others where
    o: "bucket_loop rk nr bs ns (Suc i) (zip bks idxs) = Inr others"
       "int (length others) * (nr * bs) = sum_list (drop (Suc i) ns)" by blast
  have "bucket_loop rk nr bs ns i (zip (b # bks) (ids # idxs)) = Inr (here @ others)"
    using g h(1) o(1) by simp
  moreover have "int (length (here @ others)) * (nr * bs) = sum_list (drop i ns)"
    using h(2) o(2) d d' by (simp add: algebra_simps)
  ultimately show ?case by blast
qed

lemma iter_ok:
  assumes rp: "valid_randperm rp"
    and rk: "0 \<le> rank s" "rank s < num_replicas s" and bs: "0 < batch_size s"
    and ne: "\<forall>b\<in>set (buckets s). b \<noteq> []"
    and ns: "num_samples_per_bucket s =
        map (\<lambda>b. padded_size (num_replicas s * batch_size s) (int (length b))) (buckets s)"
    and num: "num_samples s = sum_list (num_samples_per_bucket s) div num_replicas s"
    and ep: "- (2 ^ 63) \<le> epoch s" "epoch s < 2 ^ 64"
  shows "\<exists>bl. iter seed rp s = (s\<lparr>batches := Some bl\<rparr>, Inr bl) \<and>
           int (length bl) * batch_size s = num_samples s"
proof -
  obtain indices g where d: "draw_indices rp (shuffle s) (buckets s) (seed (epoch s)) = (indices, g)"
    by (cases "draw_indices rp (shuffle s) (buckets s) (seed (epoch s))")
  have rel: "list_all2 (\<lambda>b ids. mset ids = mset [0..<length b]) (buckets s) indices"
    using draw_indices_ok [OF rp, of "buckets s" "shuffle s" "seed (epoch s)"] d by simp
  have "drop 0 (num_samples_per_bucket s) =
      map (\<lambda>b. padded_size (num_replicas s * batch_size s) (int (length b))) (buckets s)"
    using ns by simp
  from bucket_loop_ok [OF rk bs rel ne this] obtain bl where
    bl: "bucket_loop (rank s) (num_replicas s) (batch_size s) (num_samples_per_bucket s) 0
           (zip (buckets s) indices) = Inr bl"
        "int (length bl) * (num_replicas s * batch_size s) = sum_list (num_samples_per_bucket s)"
    by auto
  let ?perm = "fst (rp (length bl) g)"
  let ?bl' = "if shuffle s then map ((!) bl) ?perm else bl"
  have perm: "mset ?perm = mset [0..<length bl]"
    using rp unfolding valid_randperm_def by blast
  then have "set ?perm = {0..<length bl}" by (metis mset_eq_setD set_upt)
  then have "\<forall>i\<in>set ?perm. i < length bl" by simp
  from gather_ok [OF this] have
    sh: "(if shuffle s then gather bl ?perm else Inr bl) = Inr ?bl'" by simp
  have "length ?perm = length bl" using perm by (metis length_upt mset_eq_length minus_nat.diff_0)
  then have len: "length ?bl' = length bl" by simp
  have nr: "0 < num_replicas s" using rk by simp
  have "sum_list (num_samples_per_bucket s) = (int (length bl) * batch_size s) * num_replicas s"
    using bl(2) by (simp add: ac_simps)
  then have "sum_list (num_samples_per_bucket s) div num_replicas s = int (length bl) * batch_size s"
    using nr by simp
  with num len have a: "int (length ?bl') * batch_size s = num_samples s" by simp
  have "iter seed rp s = (s\<lparr>batches := Some ?bl'\<rparr>, Inr ?bl')"
    unfolding iter_def d using bl(1) sh a ep by (simp del: gather.simps split del: if_split)
  with a show ?thesis by blast
qed

lemma iter_no_buckets:
  assumes "valid_randperm rp" "buckets s = []" "num_samples s = 0"
    and "- (2 ^ 63) \<le> epoch s" "epoch s < 2 ^ 64"
  shows "iter seed rp s = (s\<lparr>batches := Some []\<rparr>, Inr [])"
proof -
  have "mset (fst (rp 0 (seed (epoch s)))) = mset [0..<0]"
    using assms(1) unfolding valid_randperm_def by blast
  then have "fst (rp 0 (seed (epoch s))) = []" by simp
  then show ?thesis using assms(2-5) by (simp add: iter_def)
qed










text \<open>
  Claim C2 says that \<^verbatim>\<open>__iter__\<close> never fails, at every epoch.
  \<^verbatim>\<open>g.manual_seed(self.epoch)\<close> raises \<^verbatim>\<open>RuntimeError\<close> for an epoch that
  is not a seed: on the sampler of the lengths 5, 15, 15, 25, 25, 25 with the
  boundaries 0, 10, 20, 30, batches of 2 and rank 1 of 2, after
  \<^verbatim>\<open>set_epoch(2 ** 64)\<close>, \<^verbatim>\<open>__iter__\<close> raises it.
\<close>

theorem iter_epoch_counterexample:
  "init [5, 15, 15, 25, 25, 25] 2 [0, 10, 20, 30] 2 1 True = Inr demo_sampler \<and>
   iter demo_seed demo_randperm (demo_sampler\<lparr>epoch := 2 ^ 64\<rparr>) =
     (demo_sampler\<lparr>epoch := 2 ^ 64\<rparr>, Inl RuntimeError)"
  by code_simp

text \<open>
  Claim C2, as the code has it. Whenever \<^verbatim>\<open>batch_size >= 1\<close> and
  \<^verbatim>\<open>0 <= rank < num_replicas\<close> (and \<^verbatim>\<open>randperm\<close> returns permutations),
  construction succeeds and leaves only non-empty buckets, \<^verbatim>\<open>num_samples\<close> is
  the sum of the padded bucket sizes divided by the number of replicas, and for every
  epoch \<open>e\<close> that is a seed (\<open>- 2 ^ 63 \<le> e\<close> and \<open>e < 2 ^ 64\<close>), whatever batch
  list an earlier call stored, \<^verbatim>\<open>__iter__\<close> raises nothing: it returns a batch
  list \<open>bl\<close> with \<^verbatim>\<open>len(bl) * batch_size == num_samples\<close>, so the assertion
  holds.
\<close>

theorem iter_never_fails:
  assumes "valid_randperm randperm" "1 \<le> bs" "0 \<le> rk" "rk < nr"
  shows "\<exists>s. init lens bs bd nr rk sh = Inr s \<and>
          (\<forall>b\<in>set (buckets s). b \<noteq> []) \<and>
          num_samples s =
            sum_list (map (\<lambda>b. padded_size (nr * bs) (int (length b))) (buckets s)) div nr \<and>
          (\<forall>e prev. - (2 ^ 63) \<le> e \<and> e < 2 ^ 64 \<longrightarrow>
             (\<exists>bl.
                iter seed randperm (s\<lparr>epoch := e, batches := prev\<rparr>) =
                  (s\<lparr>epoch := e, batches := Some bl\<rparr>, Inr bl) \<and>
                int (length bl) * bs = num_samples s))"
proof -
  have bs: "0 < bs" using assms(2) by simp
  from init_ok [OF assms(3,4) bs, of lens bd sh] obtain bks bd' where
    i: "init lens bs bd nr rk sh =
            Inr \<lparr> lengths = lens, batch_size = bs, boundaries = bd', num_replicas = nr,
                  rank = rk, shuffle = sh, epoch = 0, buckets = bks,
                  num_samples_per_bucket = map (\<lambda>b. padded_size (nr * bs) (int (length b))) bks,
                  total_size = sum_list (map (\<lambda>b. padded_size (nr * bs) (int (length b))) bks),
                  num_samples = sum_list (map (\<lambda>b. padded_size (nr * bs) (int (length b))) bks) div nr,
                  batches = None \<rparr>" (is "_ = Inr ?s")
    and ne: "\<forall>b\<in>set bks. b \<noteq> []" by blast
  have it: "\<exists>bl. iter seed randperm (?s\<lparr>epoch := e, batches := prev\<rparr>) =
                (?s\<lparr>epoch := e, batches := Some bl\<rparr>, Inr bl) \<and>
              int (length bl) * bs = num_samples ?s"
    if e: "- (2 ^ 63) \<le> e" "e < 2 ^ 64" for e prev
  proof -
    let ?t = "?s\<lparr>epoch := e, batches := prev\<rparr>"
    have "\<exists>bl. iter seed randperm ?t = (?t\<lparr>batches := Some bl\<rparr>, Inr bl) \<and>
           int (length bl) * batch_size ?t = num_samples ?t"
      using assms(1,3,4) bs ne e by (intro iter_ok) simp_all
    then show ?thesis by simp
  qed
  show ?thesis
    using i ne it by (intro exI [of _ ?s]) simp
qed

theorem iter_never_fails_witness:
  "valid_randperm demo_randperm \<and> (1::int) \<le> 2 \<and> (0::int) \<le> 1 \<and> (1::int) < 2 \<and>
   - (2 ^ 63) \<le> (3::int) \<and> (3::int) < 2 ^ 64 \<and>
   init [5, 15, 15, 25, 25, 25] 2 [0, 10, 20, 30] 2 1 True = Inr demo_sampler \<and>
   iter demo_seed demo_randperm (demo_sampler\<lparr>epoch := 3, batches := None\<rparr>) =
     (demo_sampler\<lparr>epoch := 3, batches := Some [[1, 1], [4, 3], [0, 0]]\<rparr>,
      Inr [[1, 1], [4, 3], [0, 0]]) \<and>
   int (length [[1, 1], [4, 3], [0, 0 :: nat]]) * 2 = num_samples demo_sampler"
proof -
  have h: "(1::int) \<le> 2" "(0::int) \<le> 1" "(1::int) < 2" by simp_all
  have e: "- (2 ^ 63) \<le> (3::int) \<and> (3::int) < 2 ^ 64" by simp
  have i: "init [5, 15, 15, 25, 25, 25] 2 [0, 10, 20, 30] 2 1 True = Inr demo_sampler"
    by code_simp
  have j: "iter demo_seed demo_randperm (demo_sampler\<lparr>epoch := 3, batches := None\<rparr>) =
     (demo_sampler\<lparr>epoch := 3, batches := Some [[1, 1], [4, 3], [0, 0]]\<rparr>,
      Inr [[1, 1], [4, 3], [0, 0]])"
    by code_simp
  from iter_never_fails [OF valid_demo_randperm h, of "[5, 15, 15, 25, 25, 25]" "[0, 10, 20, 30]" True demo_seed]
  obtain s where s: "init [5, 15, 15, 25, 25, 25] 2 [0, 10, 20, 30] 2 1 True = Inr s"
    "\<forall>e prev. - (2 ^ 63) \<le> e \<and> e < 2 ^ 64 \<longrightarrow>
       (\<exists>bl. iter demo_seed demo_randperm (s\<lparr>epoch := e, batches := prev\<rparr>) =
                (s\<lparr>epoch := e, batches := Some bl\<rparr>, Inr bl) \<and>
              int (length bl) * 2 = num_samples s)"
    by blast
  from i s(1) have eq: "s = demo_sampler" by simp
  from s(2) e obtain bl where
    bl: "iter demo_seed demo_randperm (s\<lparr>epoch := 3, batches := None\<rparr>) =
           (s\<lparr>epoch := 3, batches := Some bl\<rparr>, Inr bl)"
        "int (length bl) * 2 = num_samples s" by blast
  from bl(1) j have "bl = [[1, 1], [4, 3], [0, 0]]" unfolding eq by simp
  with bl(2) have l: "int (length [[1, 1], [4, 3], [0, 0 :: nat]]) * 2 = num_samples demo_sampler"
    unfolding eq by simp
  from valid_demo_randperm h e i j l show ?thesis by blast
qed

text \<open>
  Claim C9 asks for a construction that fails when every bucket is empty. The code has
  no such check: with the lengths 5 and 31 and the boundaries 10, 20, 30 no example is
  kept, and \<^verbatim>\<open>__init__\<close> returns a sampler without buckets.
\<close>

theorem empty_dataset_counterexample:
  "init [5, 31] 2 [10, 20, 30] 1 0 True =
     Inr \<lparr> lengths = [5, 31], batch_size = 2, boundaries = [10], num_replicas = 1, rank = 0,
           shuffle = True, epoch = 0, buckets = [], num_samples_per_bucket = [],
           total_size = 0, num_samples = 0, batches = None \<rparr>"
  by code_simp

text \<open>
  Claim C9, as the code has it. When no example falls inside the ascending boundaries
  (every length is at most the first boundary or above the last), construction with
  \<^verbatim>\<open>0 <= rank < num_replicas\<close> raises nothing, for any batch size: it returns a
  sampler with no buckets, \<^verbatim>\<open>total_size = 0\<close> and \<^verbatim>\<open>num_samples = 0\<close>,
  and \<^verbatim>\<open>__iter__\<close> on it returns the empty batch list at every epoch \<open>e\<close>
  that is a seed (\<open>- 2 ^ 63 \<le> e\<close> and \<open>e < 2 ^ 64\<close>).
\<close>

theorem empty_dataset_constructs:
  assumes "sorted bd" "bd \<noteq> []" "\<forall>l\<in>set lens. l \<le> bd ! 0 \<or> last bd < l"
    and "0 \<le> rk" "rk < nr" and "valid_randperm randperm"
  shows "\<exists>s. init lens bs bd nr rk sh = Inr s \<and>
          buckets s = [] \<and> num_samples_per_bucket s = [] \<and>
          total_size s = 0 \<and> num_samples s = 0 \<and>
          (\<forall>e. - (2 ^ 63) \<le> e \<and> e < 2 ^ 64 \<longrightarrow>
             iter seed randperm (s\<lparr>epoch := e\<rparr>) = (s\<lparr>epoch := e, batches := Some []\<rparr>, Inr []))"
proof -
  have "\<forall>l\<in>set lens. bisect bd l = Inr (- 1)"
  proof
    fix l assume "l \<in> set lens"
    with assms(3) have "l \<le> bd ! 0 \<or> last bd < l" by blast
    with bisect_sorted [OF assms(1,2), of l] show "bisect bd l = Inr (- 1)" by auto
  qed
  from init_empty [OF this assms(4,5), of bs sh] obtain bd' where
    i: "init lens bs bd nr rk sh =
            Inr \<lparr> lengths = lens, batch_size = bs, boundaries = bd', num_replicas = nr,
                  rank = rk, shuffle = sh, epoch = 0, buckets = [],
                  num_samples_per_bucket = [], total_size = 0, num_samples = 0,
                  batches = None \<rparr>" (is "_ = Inr ?s") by blast
  have "iter seed randperm (?s\<lparr>epoch := e\<rparr>) = (?s\<lparr>epoch := e, batches := Some []\<rparr>, Inr [])"
    if "- (2 ^ 63) \<le> e" "e < 2 ^ 64" for e
    using iter_no_buckets [OF assms(6), of "?s\<lparr>epoch := e\<rparr>" seed] that by simp
  with i show ?thesis by (intro exI [of _ ?s]) simp
qed

theorem empty_dataset_constructs_witness:
  "sorted [10, 20, 30 :: int] \<and> [10, 20, 30 :: int] \<noteq> [] \<and>
   (0::int) \<le> 0 \<and> (0::int) < 1 \<and> valid_randperm demo_randperm \<and>
   - (2 ^ 63) \<le> (7::int) \<and> (7::int) < 2 ^ 64 \<and>
   (\<exists>s. init [5, 31] 0 [10, 20, 30] 1 0 True = Inr s \<and> buckets s = [] \<and>
        num_samples s = 0 \<and>
        iter demo_seed demo_randperm (s\<lparr>epoch := 7\<rparr>) = (s\<lparr>epoch := 7, batches := Some []\<rparr>, Inr []))"
proof -
  have h: "sorted [10, 20, 30 :: int]" "[10, 20, 30 :: int] \<noteq> []"
    "\<forall>l\<in>set [5, 31 :: int]. l \<le> [10, 20, 30] ! 0 \<or> last [10, 20, 30] < l"
    "(0::int) \<le> 0" "(0::int) < 1" by simp_all
  have e: "- (2 ^ 63) \<le> (7::int) \<and> (7::int) < 2 ^ 64" by simp
  from empty_dataset_constructs [OF h valid_demo_randperm, of 0 True demo_seed] e
  have "\<exists>s. init [5, 31] 0 [10, 20, 30] 1 0 True = Inr s \<and> buckets s = [] \<and>
        num_samples s = 0 \<and>
        iter demo_seed demo_randperm (s\<lparr>epoch := 7\<rparr>) = (s\<lparr>epoch := 7, batches := Some []\<rparr>, Inr [])"
    by blast
  with h(1,2,4,5) valid_demo_randperm e show ?thesis by blast
qed

subsection \<open>Reconciliation\<close>

lemma wrap64_id: "- (2 ^ 63) \<le> x \<Longrightarrow> x < 2 ^ 63 \<Longrightarrow> wrap64 x = x"
  by (simp add: wrap64_def)

lemma wrap64_small: "\<bar>x\<bar> < 2 \<Longrightarrow> wrap64 x = x"
proof -
  assume "\<bar>x\<bar> < 2"
  then have "x = - 1 \<or> x = 0 \<or> x = 1" by linarith
  then show ?thesis by (auto simp: wrap64_def)
qed

lemma mismatch_exact:
  fixes f s :: int
  assumes "\<bar>f - s\<bar> < 2"
  shows "wrap64 \<bar>wrap64 (f - s)\<bar> = \<bar>f - s\<bar>"
proof -
  have "wrap64 (f - s) = f - s" using assms by (rule wrap64_small)
  moreover have "wrap64 \<bar>f - s\<bar> = \<bar>f - s\<bar>" using assms by (intro wrap64_small) simp
  ultimately show ?thesis by simp
qed

lemma tensor_mul_exact:
  assumes "- (2 ^ 63) \<le> c" "c < 2 ^ 63" "- (2 ^ 63) \<le> t * c" "t * c < 2 ^ 63"
  shows "tensor_mul t c = Inr (t * c)"
  using assms by (simp add: tensor_mul_def wrap64_id)

lemma reconcile_error: "reconcile hop spec wav sumdur = Inl e \<Longrightarrow> e = RuntimeError"
  by (auto simp: reconcile_def zeros_def assign_cols_def tensor_mul_def Let_def
           split: if_splits sum.splits)

lemma assertion_error_iff:
  "(get_audio_text_pair hop p ph dur spec ying wav = Inl (AssertionError (Some q))) \<longleftrightarrow>
     (q = p \<and> (2 \<le> wrap64 \<bar>wrap64 (int (size1 spec) - tensor_sum dur)\<bar> \<or>
        ((\<exists>r. reconcile hop spec wav (tensor_sum dur) = Inr r) \<and> length ph \<noteq> length dur)))"
proof (cases "wrap64 \<bar>wrap64 (int (size1 spec) - tensor_sum dur)\<bar> < 2")
  case False
  then show ?thesis by (auto simp: get_audio_text_pair_def Let_def)
next
  case True
  show ?thesis
  proof (cases "reconcile hop spec wav (tensor_sum dur)")
    case (Inl e)
    with reconcile_error [OF Inl] True show ?thesis
      by (simp add: get_audio_text_pair_def Let_def)
  next
    case (Inr r)
    with True show ?thesis
      by (cases r) (auto simp: get_audio_text_pair_def Let_def)
  qed
qed

lemma slice_cols_nonneg:
  "0 \<le> k \<Longrightarrow> slice_cols t k = \<lparr> size1 = min (nat k) (size1 t), rows = map (take (nat k)) (rows t) \<rparr>"
  by (simp add: slice_cols_def slice_to_def)

lemma map2_replicate: "n = length xs \<Longrightarrow> map2 f xs (replicate n c) = map (\<lambda>x. f x c) xs"
  by (induction xs arbitrary: n) auto

lemma assign_cols_zeros:
  assumes "is_tensor src" "int (size1 src) \<le> k"
  shows "assign_cols \<lparr> size1 = nat k, rows = replicate (size0 src) (replicate (nat k) 0) \<rparr> src =
           Inr \<lparr> size1 = nat k, rows = map (\<lambda>r. r @ replicate (nat k - size1 src) 0) (rows src) \<rparr>"
proof -
  have m: "min (size1 src) (nat k) = size1 src" using assms(2) by simp
  have "map2 (\<lambda>s d. take (size1 src) s @ drop (size1 src) d) (rows src)
          (replicate (size0 src) (replicate (nat k) 0))
        = map (\<lambda>s. take (size1 src) s @ drop (size1 src) (replicate (nat k) 0)) (rows src)"
    by (rule map2_replicate) (simp add: size0_def)
  also have "\<dots> = map (\<lambda>r. r @ replicate (nat k - size1 src) 0) (rows src)"
    using assms(1) by (intro map_cong) (auto simp: is_tensor_def list_all_iff)
  finally show ?thesis
    by (simp add: assign_cols_def Let_def m size0_def)
qed

lemma reconcile_pad:
  assumes "is_tensor spec" "is_tensor wav" "size0 wav = 1"
    and "int (size1 spec) < sumdur" "tensor_mul sumdur hop = Inr k" "int (size1 wav) \<le> k"
  shows "reconcile hop spec wav sumdur =
           Inr (\<lparr> size1 = nat sumdur,
                   rows = map (\<lambda>r. r @ replicate (nat sumdur - size1 spec) 0) (rows spec) \<rparr>,
                \<lparr> size1 = nat k,
                   rows = map (\<lambda>r. r @ replicate (nat k - size1 wav) 0) (rows wav) \<rparr>)"
proof -
  have s: "0 \<le> sumdur" "0 \<le> k" using assms(4,6) by linarith+
  have a: "assign_cols \<lparr> size1 = nat sumdur, rows = replicate (size0 spec) (replicate (nat sumdur) 0) \<rparr> spec
      = Inr \<lparr> size1 = nat sumdur, rows = map (\<lambda>r. r @ replicate (nat sumdur - size1 spec) 0) (rows spec) \<rparr>"
    using assms(1,4) by (intro assign_cols_zeros) simp_all
  have b: "assign_cols \<lparr> size1 = nat k, rows = replicate 1 (replicate (nat k) 0) \<rparr> wav
      = Inr \<lparr> size1 = nat k, rows = map (\<lambda>r. r @ replicate (nat k - size1 wav) 0) (rows wav) \<rparr>"
    using assign_cols_zeros [OF assms(2,6)] assms(3) by simp
  show ?thesis
    using assms(4,5) s a b by (simp add: reconcile_def zeros_def)
qed

lemma reconcile_truncate:
  assumes "sumdur < int (size1 spec)" "0 \<le> sumdur" "tensor_mul sumdur hop = Inr k" "0 \<le> k"
  shows "reconcile hop spec wav sumdur =
           Inr (\<lparr> size1 = nat sumdur, rows = map (take (nat sumdur)) (rows spec) \<rparr>,
                \<lparr> size1 = min (nat k) (size1 wav), rows = map (take (nat k)) (rows wav) \<rparr>)"
proof -
  have "min (nat sumdur) (size1 spec) = nat sumdur" using assms(1,2) by simp
  then show ?thesis
    using assms by (simp add: reconcile_def slice_cols_nonneg)
qed

lemma reconcile_keep: "int (size1 spec) = sumdur \<Longrightarrow> reconcile hop spec wav sumdur = Inr (spec, wav)"
  by (simp add: reconcile_def)

lemma div_bounds:
  fixes n h :: int
  assumes "0 < h"
  shows "(n div h) * h \<le> n" and "n < (n div h + 1) * h"
proof -
  have e: "n = (n div h) * h + n mod h" by simp
  have "0 \<le> n mod h" "n mod h < h" using assms by simp_all
  with e show "(n div h) * h \<le> n" by linarith
  have "(n div h + 1) * h = (n div h) * h + h" by (simp add: algebra_simps)
  with e \<open>n mod h < h\<close> show "n < (n div h + 1) * h" by linarith
qed

lemma slice_cols_twice:
  assumes "0 \<le> k"
  shows "slice_cols (slice_cols t k) k = slice_cols t k"
  using assms by (simp add: slice_cols_nonneg)

lemma reconcile_fixed:
  fixes spec wav :: "('a::zero) tensor2"
  assumes t: "is_tensor spec"
    and pre: "\<bar>int (size1 spec) - sumdur\<bar> < 2"
    and w: "int (size1 wav) < 2 ^ 63"
    and r: "reconcile hop spec wav sumdur = Inr (spec', wav')"
    and hop: "hop \<noteq> 0" and post: "sumdur = int (size1 wav') div hop"
  shows "reconcile hop spec' wav' sumdur = Inr (spec', wav') \<and> \<bar>int (size1 spec') - sumdur\<bar> < 2"
proof -
  consider (gt) "sumdur < int (size1 spec)" | (lt) "int (size1 spec) < sumdur"
    | (eq) "int (size1 spec) = sumdur" by linarith
  then show ?thesis
  proof cases
    case eq
    with r pre show ?thesis by (simp add: reconcile_def)
  next
    case lt
    then have "int (size1 spec') = sumdur"
      using r by (auto simp: reconcile_def zeros_def assign_cols_def Let_def split: if_splits sum.splits)
    then show ?thesis by (simp add: reconcile_def)
  next
    case gt
    with r obtain k where k: "tensor_mul sumdur hop = Inr k"
      and sw: "spec' = slice_cols spec sumdur" "wav' = slice_cols wav k"
      by (auto simp: reconcile_def split: sum.splits)
    show ?thesis
    proof (cases "0 \<le> sumdur")
      case True
      with gt sw(1) have "int (size1 spec') = sumdur" by (simp add: slice_cols_nonneg)
      then show ?thesis by (simp add: reconcile_def)
    next
      case False
      with gt pre have S: "sumdur = - 1" and F: "size1 spec = 0" by linarith+
      have e: "spec' = \<lparr> size1 = 0, rows = rows spec \<rparr>"
        using t F unfolding sw(1) S
        by (auto simp: slice_cols_def slice_to_def is_tensor_def list_all_iff intro!: map_idI)
      have s1: "slice_cols spec' (- 1) = spec'"
        using t F unfolding e
        by (auto simp: slice_cols_def slice_to_def is_tensor_def list_all_iff intro!: map_idI)
      have neg: "hop < 0"
      proof (rule ccontr)
        assume "\<not> hop < 0"
        with hop have "0 < hop" by simp
        then have "0 \<le> int (size1 wav') div hop" by (simp add: pos_imp_zdiv_nonneg_iff)
        with post S show False by simp
      qed
      from k have range: "- (2 ^ 63) \<le> hop" and kk: "k = wrap64 (- hop)"
        unfolding S by (auto simp: tensor_mul_def split: if_splits)
      have "0 \<le> k"
      proof (cases "hop = - (2 ^ 63)")
        case True
        then have "k = - (2 ^ 63)" unfolding kk by (simp add: wrap64_def)
        then have "size1 wav' = 0" using w unfolding sw(2) by (simp add: slice_cols_def)
        with post S show ?thesis by simp
      next
        case False
        with range have "- (2 ^ 63) < hop" by simp
        then have "wrap64 (- hop) = - hop" using neg by (intro wrap64_id) simp_all
        then show ?thesis using neg kk by simp
      qed
      then have s2: "slice_cols wav' k = wav'"
        unfolding sw(2) by (rule slice_cols_twice)
      have "size1 spec' = 0" using e by simp
      then show ?thesis using S s1 s2 k by (simp add: reconcile_def)
    qed
  qed
qed

lemma get_audio_text_pair_fixed:
  fixes spec wav :: "('a::zero) tensor2"
  assumes "is_tensor spec"
    and pre: "\<bar>int (size1 spec) - tensor_sum dur\<bar> < 2"
    and w: "int (size1 wav) < 2 ^ 63"
    and "get_audio_text_pair hop p ph dur spec ying wav = Inr (ph', spec', ying', wav', dur')"
  shows "get_audio_text_pair hop p ph' dur' spec' ying' wav' = Inr (ph', spec', ying', wav', dur')"
proof -
  let ?S = "tensor_sum dur"
  have c: "wrap64 \<bar>wrap64 (int (size1 spec) - ?S)\<bar> < 2"
    using pre by (simp add: mismatch_exact)
  from assms(4) c obtain s w where r: "reconcile hop spec wav ?S = Inr (s, w)"
    by (cases "reconcile hop spec wav ?S") (auto simp: get_audio_text_pair_def Let_def)
  from assms(4) c r have f: "length ph = length dur" "hop \<noteq> 0" "?S = int (size1 w) div hop"
    and o: "ph' = ph" "spec' = s" "ying' = ying" "wav' = w" "dur' = dur"
    by (auto simp: get_audio_text_pair_def Let_def split: if_splits)
  from reconcile_fixed [OF assms(1) pre w r f(2,3)]
  have r': "reconcile hop s w ?S = Inr (s, w)" and p': "\<bar>int (size1 s) - ?S\<bar> < 2" by simp_all
  have c': "wrap64 \<bar>wrap64 (int (size1 s) - ?S)\<bar> < 2"
    using p' by (simp add: mismatch_exact)
  show ?thesis
    using f r' c' unfolding o by (simp add: get_audio_text_pair_def Let_def)
qed

text \<open>
  Claim C4 says that reconciliation succeeds whenever the frame count and the sum of
  the durations differ by less than 2. The code checks more after it has truncated or
  padded: a spectrogram of three frames with a waveform of three samples, a hop length
  of 2 and one duration of 2 passes the first assertion, and the last assertion
  (\<^verbatim>\<open>sumdur == wav.shape[-1] // self.hop_length\<close>, which has no message) fails.
\<close>

theorem reconcile_counterexample:
  "\<bar>int (size1 demo_spec) - tensor_sum [2]\<bar> < 2 \<and>
   get_audio_text_pair 2 ''a.wav'' [7] [2] demo_spec demo_ying \<lparr> size1 = 3, rows = [[1, 2, 3]] \<rparr>
     = Inl (AssertionError None)"
  by code_simp

text \<open>
  Claim C4, as the code has it. Let the hop length be positive, the waveform have one
  row and \<^verbatim>\<open>wav.shape[-1] // hop_length\<close> frames' worth of samples for the
  \<^verbatim>\<open>spec.shape[-1]\<close> frames of the spectrogram (what \<^verbatim>\<open>_filter\<close>'s comment
  states of the two), the durations be as many as the text units and their sum
  \<open>S\<close>, which is \<^verbatim>\<open>sum(phn_dur)\<close> in 64-bit arithmetic, be non-negative; and
  let the waveform and the one of \<open>S * hop_length\<close> samples have sizes below
  \<open>2 ^ 63\<close>, as the sizes of tensors are. If the frame count and \<open>S\<close> differ by
  less than 2, then \<^verbatim>\<open>get_audio_text_pair\<close> returns, the text units, the pitch
  feature and the durations unchanged, with a spectrogram of \<open>S\<close> frames and a
  waveform of \<open>S\<close> frames' worth of samples: both cut to \<open>S\<close> frames and
  \<open>S * hop_length\<close> samples when the spectrogram was longer, both filled with zeros
  to these lengths when it was shorter, and both unchanged when it had \<open>S\<close> frames.
\<close>

theorem reconcile_succeeds:
  fixes spec wav :: "('a::zero) tensor2"
  assumes t: "is_tensor spec" "is_tensor wav"
    and hop: "0 < hop"
    and pre: "\<bar>int (size1 spec) - tensor_sum dur\<bar> < 2"
    and nn: "0 \<le> tensor_sum dur"
    and len: "length ph = length dur"
    and one: "size0 wav = 1"
    and fr: "int (size1 wav) div hop = int (size1 spec)"
    and sz: "int (size1 wav) < 2 ^ 63" "tensor_sum dur * hop < 2 ^ 63"
  shows "\<exists>spec' wav'.
      get_audio_text_pair hop p ph dur spec ying wav = Inr (ph, spec', ying, wav', dur) \<and>
      is_tensor spec' \<and> is_tensor wav' \<and> size0 spec' = size0 spec \<and> size0 wav' = 1 \<and>
      int (size1 spec') = tensor_sum dur \<and> int (size1 wav') div hop = tensor_sum dur \<and>
      (tensor_sum dur < int (size1 spec) \<longrightarrow>
         rows spec' = map (take (nat (tensor_sum dur))) (rows spec) \<and>
         rows wav' = map (take (nat (tensor_sum dur * hop))) (rows wav) \<and>
         int (size1 wav') = tensor_sum dur * hop) \<and>
      (int (size1 spec) < tensor_sum dur \<longrightarrow>
         rows spec' = map (\<lambda>r. r @ replicate (nat (tensor_sum dur) - size1 spec) 0) (rows spec) \<and>
         rows wav' = map (\<lambda>r. r @ replicate (nat (tensor_sum dur * hop) - size1 wav) 0) (rows wav) \<and>
         int (size1 wav') = tensor_sum dur * hop) \<and>
      (int (size1 spec) = tensor_sum dur \<longrightarrow> spec' = spec \<and> wav' = wav)"
proof -
  let ?S = "tensor_sum dur"
  let ?F = "int (size1 spec)"
  let ?N = "int (size1 wav)"
  have lo: "?F * hop \<le> ?N" and hi: "?N < (?F + 1) * hop"
    using div_bounds [OF hop, of ?N] fr by simp_all
  have Sh: "0 \<le> ?S * hop" using nn hop by simp
  have dv: "(?S * hop) div hop = ?S" using hop by simp
  have c: "wrap64 \<bar>wrap64 (?F - ?S)\<bar> < 2" using pre by (simp add: mismatch_exact)
  have mul: "tensor_mul ?S hop = Inr (?S * hop)" if "?F \<noteq> ?S"
  proof -
    have "hop < 2 ^ 63"
    proof (cases "1 \<le> ?S")
      case True
      with hop have "hop \<le> ?S * hop" by simp
      with sz(2) show ?thesis by linarith
    next
      case False
      with nn that pre have "1 \<le> ?F" by linarith
      with hop have "hop \<le> ?F * hop" by simp
      with lo sz(1) show ?thesis by linarith
    qed
    moreover have "- (2 ^ 63) \<le> hop" using hop by simp
    moreover have "- (2 ^ 63) \<le> ?S * hop" using Sh by simp
    ultimately show ?thesis using sz(2) by (intro tensor_mul_exact)
  qed
  consider (gt) "?S < ?F" | (lt) "?F < ?S" | (eq) "?F = ?S" by linarith
  then show ?thesis
  proof cases
    case gt
    with pre have F: "?F = ?S + 1" by linarith
    let ?spec' = "\<lparr> size1 = nat ?S, rows = map (take (nat ?S)) (rows spec) \<rparr>"
    let ?wav' = "\<lparr> size1 = min (nat (?S * hop)) (size1 wav),
                   rows = map (take (nat (?S * hop))) (rows wav) \<rparr>"
    have m': "tensor_mul ?S hop = Inr (?S * hop)" using gt by (intro mul) simp
    have r: "reconcile hop spec wav ?S = Inr (?spec', ?wav')"
      using gt nn m' Sh by (rule reconcile_truncate)
    have "?S * hop \<le> ?N" using lo F hop by (simp add: algebra_simps)
    then have m: "min (nat (?S * hop)) (size1 wav) = nat (?S * hop)" by linarith
    have t1: "is_tensor ?spec'" using t(1) gt nn by (auto simp: is_tensor_def list_all_iff)
    have t2: "is_tensor ?wav'" using t(2) m by (auto simp: is_tensor_def list_all_iff)
    have g: "get_audio_text_pair hop p ph dur spec ying wav = Inr (ph, ?spec', ying, ?wav', dur)"
      using c r len hop m Sh dv by (simp add: get_audio_text_pair_def Let_def)
    show ?thesis
      using g t1 t2 gt nn m Sh dv one by (intro exI [of _ ?spec'] exI [of _ ?wav']) (simp add: size0_def)
  next
    case lt
    with pre have F: "?S = ?F + 1" by linarith
    let ?spec' = "\<lparr> size1 = nat ?S,
                   rows = map (\<lambda>r. r @ replicate (nat ?S - size1 spec) 0) (rows spec) \<rparr>"
    let ?wav' = "\<lparr> size1 = nat (?S * hop),
                   rows = map (\<lambda>r. r @ replicate (nat (?S * hop) - size1 wav) 0) (rows wav) \<rparr>"
    have le: "?N \<le> ?S * hop" using hi F by simp
    have m': "tensor_mul ?S hop = Inr (?S * hop)" using lt by (intro mul) simp
    have r: "reconcile hop spec wav ?S = Inr (?spec', ?wav')"
      using t one lt m' le by (rule reconcile_pad)
    have t1: "is_tensor ?spec'" using t(1) lt by (auto simp: is_tensor_def list_all_iff)
    have t2: "is_tensor ?wav'" using t(2) le by (auto simp: is_tensor_def list_all_iff)
    have g: "get_audio_text_pair hop p ph dur spec ying wav = Inr (ph, ?spec', ying, ?wav', dur)"
      using c r len hop Sh dv by (simp add: get_audio_text_pair_def Let_def)
    show ?thesis
      using g t1 t2 lt nn Sh dv one by (intro exI [of _ ?spec'] exI [of _ ?wav']) (simp add: size0_def)
  next
    case eq
    have r: "reconcile hop spec wav ?S = Inr (spec, wav)" using eq by (rule reconcile_keep)
    have g: "get_audio_text_pair hop p ph dur spec ying wav = Inr (ph, spec, ying, wav, dur)"
      using c r len hop fr eq by (simp add: get_audio_text_pair_def Let_def)
    show ?thesis
      using g t eq fr one by (intro exI [of _ spec] exI [of _ wav]) simp
  qed
qed

theorem reconcile_succeeds_witness:
  "is_tensor demo_spec \<and> is_tensor demo_wav \<and> (0::int) < 2 \<and>
   \<bar>int (size1 demo_spec) - tensor_sum [1, 3]\<bar> < 2 \<and> (0::int) \<le> tensor_sum [1, 3] \<and>
   length [7, 8 :: int] = length [1, 3 :: int] \<and> size0 demo_wav = 1 \<and>
   int (size1 demo_wav) div 2 = int (size1 demo_spec) \<and>
   int (size1 demo_wav) < 2 ^ 63 \<and> tensor_sum [1, 3] * 2 < 2 ^ 63 \<and>
   get_audio_text_pair 2 ''a.wav'' [7, 8] [1, 3] demo_spec demo_ying demo_wav =
     Inr ([7, 8], \<lparr> size1 = 4, rows = [[1, 2, 3, 0], [4, 5, 6, 0]] \<rparr>, demo_ying,
          \<lparr> size1 = 8, rows = [[1, 2, 3, 4, 5, 6, 7, 0]] \<rparr>, [1, 3]) \<and>
   int (size1 \<lparr> size1 = 4, rows = [[1, 2, 3, 0], [4, 5, 6, 0 :: int]] \<rparr>) = tensor_sum [1, 3] \<and>
   int (size1 \<lparr> size1 = 8, rows = [[1, 2, 3, 4, 5, 6, 7, 0 :: int]] \<rparr>) div 2 = tensor_sum [1, 3]"
proof -
  have h: "is_tensor demo_spec" "is_tensor demo_wav" "(0::int) < 2"
    "\<bar>int (size1 demo_spec) - tensor_sum [1, 3]\<bar> < 2" "(0::int) \<le> tensor_sum [1, 3]"
    "length [7, 8 :: int] = length [1, 3 :: int]" "size0 demo_wav = 1"
    "int (size1 demo_wav) div 2 = int (size1 demo_spec)"
    "int (size1 demo_wav) < 2 ^ 63" "tensor_sum [1, 3] * 2 < 2 ^ 63"
    by code_simp+
  have c: "get_audio_text_pair 2 ''a.wav'' [7, 8] [1, 3] demo_spec demo_ying demo_wav =
     Inr ([7, 8], \<lparr> size1 = 4, rows = [[1, 2, 3, 0], [4, 5, 6, 0]] \<rparr>, demo_ying,
          \<lparr> size1 = 8, rows = [[1, 2, 3, 4, 5, 6, 7, 0]] \<rparr>, [1, 3])"
    by code_simp
  from reconcile_succeeds [OF h, of "''a.wav''" demo_ying]
  obtain spec' wav' where
    r: "get_audio_text_pair 2 ''a.wav'' [7, 8] [1, 3] demo_spec demo_ying demo_wav =
          Inr ([7, 8], spec', demo_ying, wav', [1, 3])"
       "int (size1 spec') = tensor_sum [1, 3]" "int (size1 wav') div 2 = tensor_sum [1, 3]"
    by blast
  from r(1) c have "spec' = \<lparr> size1 = 4, rows = [[1, 2, 3, 0], [4, 5, 6, 0]] \<rparr>"
    "wav' = \<lparr> size1 = 8, rows = [[1, 2, 3, 4, 5, 6, 7, 0]] \<rparr>" by simp_all
  with r(2,3) have "int (size1 \<lparr> size1 = 4, rows = [[1, 2, 3, 0], [4, 5, 6, 0 :: int]] \<rparr>) = tensor_sum [1, 3]"
    "int (size1 \<lparr> size1 = 8, rows = [[1, 2, 3, 4, 5, 6, 7, 0 :: int]] \<rparr>) div 2 = tensor_sum [1, 3]"
    by simp_all
  with h c show ?thesis by blast
qed

text \<open>
  Claim C5 gives the alignment check an error of its own, raised if and only if the
  frame count and the sum of the durations differ by 2 or more. In the code the
  assertion of line 77 and the one of line 90
  (\<^verbatim>\<open>phonemes.shape == phn_dur.shape\<close>) raise the same
  \<^verbatim>\<open>AssertionError(wav_path)\<close>: with three frames, the one duration 3 and two
  text units the mismatch is 0 and the call raises what it raises for the durations
  1 and 4, whose mismatch is 2. And the sum is one of 64-bit integers: the durations
  \<open>2 ^ 63 - 1\<close>, \<open>2 ^ 63 - 1\<close> and 5 add up to 3 in the code, and the call returns
  the example.
\<close>

theorem alignment_error_counterexample:
  "\<bar>int (size1 demo_spec) - sum_list [3]\<bar> < 2 \<and>
   get_audio_text_pair 2 ''a.wav'' [7, 8] [3] demo_spec demo_ying demo_wav
     = Inl (AssertionError (Some ''a.wav'')) \<and>
   2 \<le> \<bar>int (size1 demo_spec) - sum_list [1, 4]\<bar> \<and>
   get_audio_text_pair 2 ''a.wav'' [7, 8] [1, 4] demo_spec demo_ying demo_wav
     = Inl (AssertionError (Some ''a.wav'')) \<and>
   2 \<le> \<bar>int (size1 demo_spec) - sum_list [2 ^ 63 - 1, 2 ^ 63 - 1, 5]\<bar> \<and>
   get_audio_text_pair 2 ''a.wav'' [7, 8, 9] [2 ^ 63 - 1, 2 ^ 63 - 1, 5] demo_spec demo_ying demo_wav
     = Inr ([7, 8, 9], demo_spec, demo_ying, demo_wav, [2 ^ 63 - 1, 2 ^ 63 - 1, 5])"
  by code_simp

text \<open>
  Claim C5, as the code has it. With a hop length that is a 64-bit integer,
  \<^verbatim>\<open>get_audio_text_pair\<close> raises \<^verbatim>\<open>AssertionError\<close> with a message
  \<open>q\<close>, and the caller receives it, exactly when \<open>q\<close> is the path of the example
  and either \<^verbatim>\<open>abs(spec.shape[-1] - sum(phn_dur))\<close>, computed in 64-bit
  arithmetic, is 2 or more, or it is less than 2, truncating or padding has raised
  nothing, and the text units and the durations differ in number.
\<close>

theorem alignment_error_iff:
  assumes "- (2 ^ 63) \<le> hop_length" and "hop_length < 2 ^ 63"
  shows "get_audio_text_pair hop_length wav_path phonemes phn_dur spec ying wav
       = Inl (AssertionError (Some q)) \<longleftrightarrow>
     q = wav_path \<and>
     (2 \<le> wrap64 \<bar>wrap64 (int (size1 spec) - tensor_sum phn_dur)\<bar> \<or>
      (\<exists>r. reconcile hop_length spec wav (tensor_sum phn_dur) = Inr r) \<and>
      length phonemes \<noteq> length phn_dur)"
  by (rule assertion_error_iff)

theorem alignment_error_iff_witness:
  "- (2 ^ 63) \<le> (2::int) \<and> (2::int) < 2 ^ 63 \<and>
   get_audio_text_pair 2 ''a.wav'' [7, 8] [1, 4] demo_spec demo_ying demo_wav
     = Inl (AssertionError (Some ''a.wav'')) \<and>
   (2::int) \<le> wrap64 \<bar>wrap64 (int (size1 demo_spec) - tensor_sum [1, 4])\<bar> \<and>
   get_audio_text_pair 2 ''a.wav'' [7, 8] [1, 3] demo_spec demo_ying demo_wav
     \<noteq> Inl (AssertionError (Some ''a.wav'')) \<and>
   \<not> (2::int) \<le> wrap64 \<bar>wrap64 (int (size1 demo_spec) - tensor_sum [1, 3])\<bar> \<and>
   length [7, 8 :: int] = length [1, 3 :: int]"
proof -
  have h: "- (2 ^ 63) \<le> (2::int)" "(2::int) < 2 ^ 63" by simp_all
  have a: "(2::int) \<le> wrap64 \<bar>wrap64 (int (size1 demo_spec) - tensor_sum [1, 4])\<bar>"
    and b: "\<not> (2::int) \<le> wrap64 \<bar>wrap64 (int (size1 demo_spec) - tensor_sum [1, 3])\<bar>"
    and l: "length [7, 8 :: int] = length [1, 3 :: int]"
    by code_simp+
  from a have "get_audio_text_pair 2 ''a.wav'' [7, 8] [1, 4] demo_spec demo_ying demo_wav
     = Inl (AssertionError (Some ''a.wav''))"
    unfolding alignment_error_iff [OF h, of "''a.wav''" "[7, 8]" "[1, 4]" demo_spec demo_ying demo_wav "''a.wav''"]
    by simp
  moreover from b l have "get_audio_text_pair 2 ''a.wav'' [7, 8] [1, 3] demo_spec demo_ying demo_wav
     \<noteq> Inl (AssertionError (Some ''a.wav''))"
    unfolding alignment_error_iff [OF h, of "''a.wav''" "[7, 8]" "[1, 3]" demo_spec demo_ying demo_wav "''a.wav''"]
    by simp
  ultimately show ?thesis using h a b l by blast
qed

text \<open>
  The arithmetic of the first assertion wraps around, so the assertion can hold when
  the frame count and the sum of the durations differ by \<open>2 ^ 63\<close>: with a hop
  length of \<open>- 1\<close>, the one duration \<open>- 3\<close>, a waveform of four samples and a
  spectrogram of no rows and \<open>2 ^ 63 - 3\<close> frames, the call returns an example on
  which a second call raises. That the call returns does not give the precondition
  of claim C6.
\<close>

lemma check_passes_by_wrap_around:
  "\<not> \<bar>int (9223372036854775805 :: nat) - tensor_sum [- 3]\<bar> < 2 \<and>
   get_audio_text_pair (- 1) ''a.wav'' [7] [- 3]
       \<lparr> size1 = 9223372036854775805, rows = [] \<rparr> demo_ying \<lparr> size1 = 4, rows = [[1, 2, 3, 4]] \<rparr> =
     Inr ([7], \<lparr> size1 = 9223372036854775802, rows = [] \<rparr>, demo_ying,
          \<lparr> size1 = 3, rows = [[1, 2, 3 :: int]] \<rparr>, [- 3]) \<and>
   get_audio_text_pair (- 1) ''a.wav'' [7] [- 3]
       \<lparr> size1 = 9223372036854775802, rows = [] \<rparr> demo_ying \<lparr> size1 = 3, rows = [[1, 2, 3 :: int]] \<rparr> =
     Inl (AssertionError (Some ''a.wav''))"
  by (simp add: get_audio_text_pair_def reconcile_def tensor_sum_def wrap64_def tensor_mul_def
        slice_cols_def slice_to_def Let_def)

text \<open>
  Claim C6. Reconciliation is idempotent. For every input that satisfies the
  precondition (the frame count and the sum of the durations, which is
  \<^verbatim>\<open>sum(phn_dur)\<close> in 64-bit arithmetic, differ by less than 2), with a
  spectrogram that is a tensor and a waveform of fewer than \<open>2 ^ 63\<close> samples, as
  every tensor has: when \<^verbatim>\<open>get_audio_text_pair\<close> returns an example, running it
  again on what it returned, with the same hop length, returns the same example.
\<close>

theorem reconcile_idempotent:
  fixes spec wav :: "('a::zero) tensor2"
  assumes "is_tensor spec"
    and "\<bar>int (size1 spec) - tensor_sum phn_dur\<bar> < 2"
    and "int (size1 wav) < 2 ^ 63"
    and "get_audio_text_pair hop_length wav_path phonemes phn_dur spec ying wav =
           Inr (phonemes', spec', ying', wav', phn_dur')"
  shows "get_audio_text_pair hop_length wav_path phonemes' phn_dur' spec' ying' wav' =
           Inr (phonemes', spec', ying', wav', phn_dur')"
  using assms by (rule get_audio_text_pair_fixed)

theorem reconcile_idempotent_witness:
  "is_tensor demo_spec \<and> \<bar>int (size1 demo_spec) - tensor_sum [1, 3]\<bar> < 2 \<and>
   int (size1 demo_wav) < 2 ^ 63 \<and>
   get_audio_text_pair 2 ''a.wav'' [7, 8] [1, 3] demo_spec demo_ying demo_wav =
     Inr ([7, 8], \<lparr> size1 = 4, rows = [[1, 2, 3, 0], [4, 5, 6, 0]] \<rparr>, demo_ying,
          \<lparr> size1 = 8, rows = [[1, 2, 3, 4, 5, 6, 7, 0]] \<rparr>, [1, 3]) \<and>
   get_audio_text_pair 2 ''a.wav'' [7, 8] [1, 3]
       \<lparr> size1 = 4, rows = [[1, 2, 3, 0], [4, 5, 6, 0]] \<rparr> demo_ying
       \<lparr> size1 = 8, rows = [[1, 2, 3, 4, 5, 6, 7, 0]] \<rparr> =
     Inr ([7, 8], \<lparr> size1 = 4, rows = [[1, 2, 3, 0], [4, 5, 6, 0]] \<rparr>, demo_ying,
          \<lparr> size1 = 8, rows = [[1, 2, 3, 4, 5, 6, 7, 0]] \<rparr>, [1, 3])"
proof -
  have t: "is_tensor demo_spec" "\<bar>int (size1 demo_spec) - tensor_sum [1, 3]\<bar> < 2"
    "int (size1 demo_wav) < 2 ^ 63" by code_simp+
  have c: "get_audio_text_pair 2 ''a.wav'' [7, 8] [1, 3] demo_spec demo_ying demo_wav =
     Inr ([7, 8], \<lparr> size1 = 4, rows = [[1, 2, 3, 0], [4, 5, 6, 0]] \<rparr>, demo_ying,
          \<lparr> size1 = 8, rows = [[1, 2, 3, 4, 5, 6, 7, 0]] \<rparr>, [1, 3])"
    by code_simp
  from t c reconcile_idempotent [OF t c] show ?thesis by blast
qed

subsection \<open>The catalog's filter\<close>

lemma filter_rows_ok:
  assumes "\<forall>row\<in>set audiopaths_sid_text. length row = 3"
    and "\<forall>row\<in>set audiopaths_sid_text.
           min_text_len \<le> int (length (row ! 1)) \<and> int (length (row ! 1)) \<le> max_text_len \<longrightarrow>
           (\<exists>n. getsize (path_join data_path (row ! 0) @ ''.wav'') = Inr n)"
    and "hop_length \<noteq> 0"
  shows "\<exists>lens. filter_rows getsize data_path hop_length min_text_len max_text_len audiopaths_sid_text =
           Inr (map (\<lambda>row. [path_join data_path (row ! 0) @ ''.wav'', row ! 1, row ! 2])
                  (filter (\<lambda>row. min_text_len \<le> int (length (row ! 1)) \<and>
                                 int (length (row ! 1)) \<le> max_text_len) audiopaths_sid_text),
                lens) \<and>
           length lens = length (filter (\<lambda>row. min_text_len \<le> int (length (row ! 1)) \<and>
                                 int (length (row ! 1)) \<le> max_text_len) audiopaths_sid_text)"
  using assms(1,2)
proof (induction audiopaths_sid_text)
  case Nil
  then show ?case by simp
next
  case (Cons row audiopaths_sid_text)
  from Cons.prems(1) have "length row = 3" by simp
  then have "length row = Suc (Suc (Suc 0))" by simp
  then obtain a b c where row: "row = [a, b, c]"
    by (auto simp: length_Suc_conv)
  have n: "\<exists>n. getsize (path_join data_path a @ ''.wav'') = Inr n"
    if "min_text_len \<le> int (length b)" "int (length b) \<le> max_text_len"
    using Cons.prems(2) that unfolding row by simp
  from Cons.IH Cons.prems obtain lens where
    ih: "filter_rows getsize data_path hop_length min_text_len max_text_len audiopaths_sid_text =
           Inr (map (\<lambda>row. [path_join data_path (row ! 0) @ ''.wav'', row ! 1, row ! 2])
                  (filter (\<lambda>row. min_text_len \<le> int (length (row ! 1)) \<and>
                                 int (length (row ! 1)) \<le> max_text_len) audiopaths_sid_text),
                lens)"
        "length lens = length (filter (\<lambda>row. min_text_len \<le> int (length (row ! 1)) \<and>
                                 int (length (row ! 1)) \<le> max_text_len) audiopaths_sid_text)"
    by auto
  show ?case
  proof (cases "min_text_len \<le> int (length b) \<and> int (length b) \<le> max_text_len")
    case True
    with n obtain k where "getsize (path_join data_path a @ ''.wav'') = Inr k" by blast
    with ih True assms(3) show ?thesis unfolding row by simp
  next
    case False
    with ih show ?thesis unfolding row by auto
  qed
qed

text \<open>
  Claim C8 measures a row by its number of text units. The code measures the string
  of the row: the row with the phonemes \<^verbatim>\<open>AH B\<close> has two text units (and two
  durations), which is within the bounds 1 and 3, and is not retained, because the
  string has four characters.
\<close>

theorem filter_counterexample:
  "length (split_spaces ''AH B'') = 2 \<and> length (split_spaces ''1 2'') = 2 \<and>
   filter_rows demo_getsize ''data'' 256 1 3 [[''a'', ''AH B'', ''1 2'']] = Inr ([], [])"
  by code_simp

text \<open>
  Claim C8, as the code has it. Let the rows that \<^verbatim>\<open>_filter\<close> finds in
  \<^verbatim>\<open>self.audiopaths_sid_text\<close> have three fields, the size of the audio file of
  every row within the bounds be readable, and the hop length not be zero. Then
  \<^verbatim>\<open>_filter\<close> raises nothing and retains exactly the rows whose phoneme string
  has between \<^verbatim>\<open>min_text_len\<close> and \<^verbatim>\<open>max_text_len\<close> characters, each
  with the path of the audio file in place of the identifier, and one length per
  retained row. What it retains is the list it has found, without the other rows.
\<close>

theorem filter_by_characters:
  assumes "\<forall>row\<in>set audiopaths_sid_text. length row = 3"
    and "\<forall>row\<in>set audiopaths_sid_text.
           min_text_len \<le> int (length (row ! 1)) \<and> int (length (row ! 1)) \<le> max_text_len \<longrightarrow>
           (\<exists>n. getsize (path_join data_path (row ! 0) @ ''.wav'') = Inr n)"
    and "hop_length \<noteq> 0"
  shows "\<exists>lens. filter_rows getsize data_path hop_length min_text_len max_text_len audiopaths_sid_text =
           Inr (map (\<lambda>row. [path_join data_path (row ! 0) @ ''.wav'', row ! 1, row ! 2])
                  (filter (\<lambda>row. min_text_len \<le> int (length (row ! 1)) \<and>
                                 int (length (row ! 1)) \<le> max_text_len) audiopaths_sid_text),
                lens) \<and>
           length lens = length (filter (\<lambda>row. min_text_len \<le> int (length (row ! 1)) \<and>
                                 int (length (row ! 1)) \<le> max_text_len) audiopaths_sid_text)"
  using assms by (rule filter_rows_ok)

theorem filter_by_characters_witness:
  "list_all (\<lambda>row. length row = 3) [[''a'', ''AH B'', ''1 2''], [''b'', ''AH0'', ''3'']] \<and>
   (256::int) \<noteq> 0 \<and>
   filter_rows demo_getsize ''data'' 256 1 3 [[''a'', ''AH B'', ''1 2''], [''b'', ''AH0'', ''3'']] =
     Inr ([[''data/b.wav'', ''AH0'', ''3'']], [10])"
proof -
  have h: "\<forall>row\<in>set [[''a'', ''AH B'', ''1 2''], [''b'', ''AH0'', ''3'']]. length row = 3"
    "\<forall>row\<in>set [[''a'', ''AH B'', ''1 2''], [''b'', ''AH0'', ''3'']].
       1 \<le> int (length (row ! 1)) \<and> int (length (row ! 1)) \<le> 3 \<longrightarrow>
       (\<exists>n. demo_getsize (path_join ''data'' (row ! 0) @ ''.wav'') = Inr n)"
    "(256::int) \<noteq> 0"
    by (simp_all add: demo_getsize_def)
  from filter_by_characters [OF h] obtain lens where
    "filter_rows demo_getsize ''data'' 256 1 3 [[''a'', ''AH B'', ''1 2''], [''b'', ''AH0'', ''3'']] =
       Inr (map (\<lambda>row. [path_join ''data'' (row ! 0) @ ''.wav'', row ! 1, row ! 2])
              (filter (\<lambda>row. 1 \<le> int (length (row ! 1)) \<and> int (length (row ! 1)) \<le> 3)
                 [[''a'', ''AH B'', ''1 2''], [''b'', ''AH0'', ''3'']]), lens)"
    by blast
  moreover have "filter_rows demo_getsize ''data'' 256 1 3
       [[''a'', ''AH B'', ''1 2''], [''b'', ''AH0'', ''3'']] =
     Inr ([[''data/b.wav'', ''AH0'', ''3'']], [10])"
    by code_simp
  ultimately show ?thesis using h(3) by simp
qed

subsection \<open>The collator\<close>

lemma assign_prefix_zeros:
  "length src \<le> n \<Longrightarrow> assign_prefix (replicate n 0) src = Inr (zero_padded n src)"
  by (simp add: assign_prefix_def zero_padded_def Let_def min_def)

lemma assign_cols_zero_tensor:
  assumes "is_tensor src" "size1 src \<le> k" "size0 src = n"
  shows "assign_cols (zero_tensor n k) src = Inr (zero_padded_cols k src)"
proof -
  have m: "min (size1 src) k = size1 src" using assms(2) by simp
  have "map2 (\<lambda>s d. take (size1 src) s @ drop (size1 src) d) (rows src)
          (replicate n (replicate k 0))
        = map (\<lambda>s. take (size1 src) s @ drop (size1 src) (replicate k 0)) (rows src)"
    by (rule map2_replicate) (simp add: size0_def assms(3) [symmetric])
  also have "\<dots> = map (zero_padded k) (rows src)"
    using assms(1) by (intro map_cong) (auto simp: is_tensor_def list_all_iff zero_padded_def)
  finally show ?thesis
    using assms(3) by (simp add: assign_cols_def zero_tensor_def zero_padded_cols_def Let_def m size0_def)
qed

lemma collate_row_ok:
  fixes x :: "('a::zero) example"
  assumes "length (x0 x) \<le> m0" "size1 (x1 x) \<le> m1" "size1 (x2 x) \<le> m2"
    "size1 (x3 x) \<le> m3" "length (x4 x) \<le> m4"
    and "is_tensor (x1 x)" "is_tensor (x2 x)" "is_tensor (x3 x)"
    and "size0 (x1 x) = c1" "size0 (x2 x) = c2" "size0 (x3 x) = 1"
  shows "collate_row m0 c1 m1 c2 m2 m3 m4 x =
           Inr \<lparr> phonemes_row = zero_padded m0 (x0 x), phonemes_length = int (length (x0 x)),
                 spec_slice = zero_padded_cols m1 (x1 x), spec_length = int (size1 (x1 x)),
                 ying_slice = zero_padded_cols m2 (x2 x), ying_length = int (size1 (x2 x)),
                 wav_slice = zero_padded_cols m3 (x3 x), wav_length = int (size1 (x3 x)),
                 phndur_row = zero_padded m4 (x4 x) \<rparr>"
  using assms
  by (simp add: collate_row_def assign_prefix_zeros assign_cols_zero_tensor)

lemma collate_loop_ok:
  assumes "\<forall>k\<in>set ids. k < length batch" "\<forall>x\<in>set batch. body x = Inr (g x)"
  shows "collate_loop body batch ids = Inr (map (\<lambda>k. g (batch ! k)) ids)"
  using assms(1)
proof (induction ids)
  case Nil
  then show ?case by simp
next
  case (Cons k ids)
  then have k: "k < length batch" by simp
  then have "getitem batch (int k) = Inr (batch ! k)" by (simp add: getitem_def)
  moreover have "body (batch ! k) = Inr (g (batch ! k))" using assms(2) k by simp
  ultimately show ?case using Cons by simp
qed

lemma Max_map_ge: "x \<in> set xs \<Longrightarrow> f x \<le> Max (set (map f xs))"
  by simp

lemma argsort_indices:
  assumes "valid_argsort_desc srt"
  shows "set (srt keys) = {0..<length keys}" "length (srt keys) = length keys"
proof -
  have m: "mset (srt keys) = mset [0..<length keys]"
    using assms unfolding valid_argsort_desc_def by blast
  show "set (srt keys) = {0..<length keys}" using m by (metis mset_eq_setD set_upt)
  show "length (srt keys) = length keys"
    using m by (metis length_upt mset_eq_length minus_nat.diff_0)
qed

lemma collate_eq:
  fixes batch :: "('a::zero) example list"
  assumes srt: "valid_argsort_desc argsort_desc" and ne: "batch \<noteq> []"
    and shapes: "\<forall>x\<in>set batch.
        is_tensor (x1 x) \<and> is_tensor (x2 x) \<and> is_tensor (x3 x) \<and>
        size0 (x1 x) = size0 (x1 (hd batch)) \<and> size0 (x2 x) = size0 (x2 (hd batch)) \<and>
        size0 (x3 x) = 1"
  shows "collate argsort_desc batch =
    Inr [LongTensor2 \<lparr> size1 = Max (set (map (\<lambda>x. length (x0 x)) batch)),
                       rows = map (\<lambda>x. zero_padded (Max (set (map (\<lambda>x. length (x0 x)) batch))) (x0 x))
                                (sorted_examples argsort_desc batch) \<rparr>,
         LongTensor1 (map (\<lambda>x. int (length (x0 x))) (sorted_examples argsort_desc batch)),
         FloatTensor3 (map (\<lambda>x. zero_padded_cols (Max (set (map (\<lambda>x. size1 (x1 x)) batch))) (x1 x))
                         (sorted_examples argsort_desc batch)),
         LongTensor1 (map (\<lambda>x. int (size1 (x1 x))) (sorted_examples argsort_desc batch)),
         FloatTensor3 (map (\<lambda>x. zero_padded_cols (Max (set (map (\<lambda>x. size1 (x2 x)) batch))) (x2 x))
                         (sorted_examples argsort_desc batch)),
         LongTensor1 (map (\<lambda>x. int (size1 (x2 x))) (sorted_examples argsort_desc batch)),
         FloatTensor3 (map (\<lambda>x. zero_padded_cols (Max (set (map (\<lambda>x. size1 (x3 x)) batch))) (x3 x))
                         (sorted_examples argsort_desc batch)),
         LongTensor1 (map (\<lambda>x. int (size1 (x3 x))) (sorted_examples argsort_desc batch)),
         LongTensor2 \<lparr> size1 = Max (set (map (\<lambda>x. length (x4 x)) batch)),
                       rows = map (\<lambda>x. zero_padded (Max (set (map (\<lambda>x. length (x4 x)) batch))) (x4 x))
                                (sorted_examples argsort_desc batch) \<rparr>]"
proof -
  let ?ids = "argsort_desc (map (\<lambda>x. int (size1 (x1 x))) batch)"
  let ?m0 = "Max (set (map (\<lambda>x. length (x0 x)) batch))"
  let ?m1 = "Max (set (map (\<lambda>x. size1 (x1 x)) batch))"
  let ?m2 = "Max (set (map (\<lambda>x. size1 (x2 x)) batch))"
  let ?m3 = "Max (set (map (\<lambda>x. size1 (x3 x)) batch))"
  let ?m4 = "Max (set (map (\<lambda>x. length (x4 x)) batch))"
  let ?g = "\<lambda>x. \<lparr> phonemes_row = zero_padded ?m0 (x0 x), phonemes_length = int (length (x0 x)),
                 spec_slice = zero_padded_cols ?m1 (x1 x), spec_length = int (size1 (x1 x)),
                 ying_slice = zero_padded_cols ?m2 (x2 x), ying_length = int (size1 (x2 x)),
                 wav_slice = zero_padded_cols ?m3 (x3 x), wav_length = int (size1 (x3 x)),
                 phndur_row = zero_padded ?m4 (x4 x) \<rparr>"
  let ?body = "collate_row ?m0 (size0 (x1 (hd batch))) ?m1 (size0 (x2 (hd batch))) ?m2 ?m3 ?m4"
  have ids: "\<forall>k\<in>set ?ids. k < length batch"
    using argsort_indices(1) [OF srt, of "map (\<lambda>x. int (size1 (x1 x))) batch"] by simp
  have w: "\<forall>x\<in>set batch. ?body x = Inr (?g x)"
  proof
    fix x assume x: "x \<in> set batch"
    show "?body x = Inr (?g x)"
      using shapes x by (intro collate_row_ok Max_map_ge) simp_all
  qed
  have "collate_loop ?body batch ?ids = Inr (map (\<lambda>k. ?g (batch ! k)) ?ids)"
    using ids w by (rule collate_loop_ok)
  then show ?thesis
    using ne by (simp add: collate_def Let_def sorted_examples_def comp_def)
qed

lemma sorted_uminus_rev:
  fixes xs :: "int list"
  shows "sorted (map uminus xs) \<Longrightarrow> sorted (rev xs)"
  by (simp add: sorted_wrt_rev sorted_map)

lemma valid_demo_argsort: "valid_argsort_desc demo_argsort_desc"
  unfolding valid_argsort_desc_def
proof (intro allI conjI)
  fix keys :: "int list"
  let ?zs = "zip keys [0..<length keys]"
  let ?ps = "sort_key (\<lambda>p. - fst p) ?zs"
  have "mset (map snd ?ps) = image_mset snd (mset ?ps)" by (simp only: mset_map)
  also have "mset ?ps = mset ?zs" by (rule mset_sort)
  also have "image_mset snd (mset ?zs) = mset (map snd ?zs)" by (simp only: mset_map)
  also have "map snd ?zs = [0..<length keys]" by (rule map_snd_zip) simp
  finally show "mset (demo_argsort_desc keys) = mset [0..<length keys]"
    by (simp only: demo_argsort_desc_def)
  have "\<forall>p\<in>set ?ps. keys ! snd p = fst p"
    by (auto simp: set_zip)
  then have "map ((!) keys) (map snd ?ps) = map fst ?ps" by simp
  moreover have "sorted (map uminus (map fst ?ps))"
    using sorted_sort_key [of "\<lambda>p. - fst p" ?zs] by (simp add: comp_def)
  ultimately show "sorted (rev (map ((!) keys) (demo_argsort_desc keys)))"
    using sorted_uminus_rev by (simp only: demo_argsort_desc_def)
qed

lemma sorted_examples_perm:
  assumes "valid_argsort_desc srt"
  shows "mset (sorted_examples srt batch) = mset batch"
proof -
  let ?keys = "map (\<lambda>x. int (size1 (x1 x))) batch"
  have "mset (srt ?keys) = mset [0..<length ?keys]"
    using assms unfolding valid_argsort_desc_def by blast
  then have "mset (srt ?keys) = mset [0..<length batch]" by (simp only: length_map)
  then have "image_mset ((!) batch) (mset (srt ?keys)) = image_mset ((!) batch) (mset [0..<length batch])"
    by (rule arg_cong)
  then have "mset (map ((!) batch) (srt ?keys)) = mset (map ((!) batch) [0..<length batch])"
    by (simp only: mset_map)
  then show ?thesis by (simp only: sorted_examples_def map_nth)
qed

lemma sorted_examples_desc:
  assumes "valid_argsort_desc srt"
  shows "sorted (rev (map (\<lambda>x. int (size1 (x1 x))) (sorted_examples srt batch)))"
proof -
  let ?keys = "map (\<lambda>x. int (size1 (x1 x))) batch"
  have "\<forall>k\<in>set (srt ?keys). k < length batch"
    using argsort_indices(1) [OF assms, of ?keys] by simp
  then have "map ((!) ?keys) (srt ?keys) = map (\<lambda>x. int (size1 (x1 x))) (sorted_examples srt batch)"
    by (simp add: sorted_examples_def)
  moreover have "sorted (rev (map ((!) ?keys) (srt ?keys)))"
    using assms unfolding valid_argsort_desc_def by blast
  ultimately show ?thesis by simp
qed

lemma sorted_examples_first:
  assumes "valid_argsort_desc srt" "x \<in> set batch"
  shows "size1 (x1 x) \<le> size1 (x1 (hd (sorted_examples srt batch)))"
proof -
  let ?ord = "sorted_examples srt batch"
  have "set ?ord = set batch"
    using sorted_examples_perm [OF assms(1), of batch] by (rule mset_eq_setD)
  with assms(2) have x: "x \<in> set ?ord" by simp
  then obtain y ys where o: "?ord = y # ys" by (cases ?ord) auto
  have "sorted (rev (map (\<lambda>x. int (size1 (x1 x))) (y # ys)))"
    using sorted_examples_desc [OF assms(1), of batch] o by simp
  then have "\<forall>z\<in>set ys. int (size1 (x1 z)) \<le> int (size1 (x1 y))"
    by (auto simp: sorted_append)
  with x o show ?thesis by auto
qed

text \<open>
  Claim C7 has the batch sorted by the length of the text. The code sorts by
  \<^verbatim>\<open>x[1].size(1)\<close>, the number of frames: of an example with three text units and
  two frames and one with five text units and one frame, the first becomes row 0 of
  every tensor, and the lengths of the texts come out as 3, 5.
\<close>

theorem collate_order_counterexample:
  "collate demo_argsort_desc [demo_short_text, demo_long_text] =
     Inr [LongTensor2 \<lparr> size1 = 5, rows = [[1, 2, 3, 0, 0], [4, 5, 6, 7, 8]] \<rparr>,
          LongTensor1 [3, 5],
          FloatTensor3 [\<lparr> size1 = 2, rows = [[1, 2], [3, 4]] \<rparr>, \<lparr> size1 = 2, rows = [[7, 0], [8, 0]] \<rparr>],
          LongTensor1 [2, 1],
          FloatTensor3 [\<lparr> size1 = 2, rows = [[5, 6]] \<rparr>, \<lparr> size1 = 2, rows = [[9, 0]] \<rparr>],
          LongTensor1 [2, 1],
          FloatTensor3 [\<lparr> size1 = 4, rows = [[1, 2, 3, 4]] \<rparr>, \<lparr> size1 = 4, rows = [[5, 6, 0, 0]] \<rparr>],
          LongTensor1 [4, 2],
          LongTensor2 \<lparr> size1 = 5, rows = [[1, 1, 0, 0, 0], [1, 0, 0, 0, 0]] \<rparr>]"
  by code_simp

text \<open>
  Claim C7, as the code has it. The collator orders the examples by descending number
  of spectrogram frames, in the order of the indices that \<^verbatim>\<open>torch.sort\<close> returns
  (the order of examples with equally many frames is torch's choice): for a non-empty batch of examples whose spectrograms, pitch features and
  waveforms are tensors, with the channel counts of the first example and one-row
  waveforms (otherwise the copy into the padded tensors raises),
  the ordered examples are a permutation of the batch, their frame counts descend, no
  example has more frames than the first, and row \<open>i\<close> of each of the nine tensors
  returned is made from the \<open>i\<close>-th ordered example.
\<close>

theorem collate_order:
  fixes batch :: "('a::zero) example list"
  assumes "valid_argsort_desc argsort_desc" and "batch \<noteq> []"
    and "\<forall>x\<in>set batch.
        is_tensor (x1 x) \<and> is_tensor (x2 x) \<and> is_tensor (x3 x) \<and>
        size0 (x1 x) = size0 (x1 (hd batch)) \<and> size0 (x2 x) = size0 (x2 (hd batch)) \<and>
        size0 (x3 x) = 1"
  shows "mset (sorted_examples argsort_desc batch) = mset batch \<and>
    sorted (rev (map (\<lambda>x. int (size1 (x1 x))) (sorted_examples argsort_desc batch))) \<and>
    (\<forall>x\<in>set batch. size1 (x1 x) \<le> size1 (x1 (hd (sorted_examples argsort_desc batch)))) \<and>
    (\<exists>out. collate argsort_desc batch = Inr out \<and> length out = 9 \<and>
       out ! 0 = LongTensor2 \<lparr> size1 = Max (set (map (\<lambda>x. length (x0 x)) batch)),
                   rows = map (\<lambda>x. zero_padded (Max (set (map (\<lambda>x. length (x0 x)) batch))) (x0 x))
                            (sorted_examples argsort_desc batch) \<rparr> \<and>
       out ! 1 = LongTensor1 (map (\<lambda>x. int (length (x0 x))) (sorted_examples argsort_desc batch)) \<and>
       out ! 2 = FloatTensor3 (map (\<lambda>x. zero_padded_cols (Max (set (map (\<lambda>x. size1 (x1 x)) batch))) (x1 x))
                         (sorted_examples argsort_desc batch)) \<and>
       out ! 3 = LongTensor1 (map (\<lambda>x. int (size1 (x1 x))) (sorted_examples argsort_desc batch)) \<and>
       out ! 4 = FloatTensor3 (map (\<lambda>x. zero_padded_cols (Max (set (map (\<lambda>x. size1 (x2 x)) batch))) (x2 x))
                         (sorted_examples argsort_desc batch)) \<and>
       out ! 5 = LongTensor1 (map (\<lambda>x. int (size1 (x2 x))) (sorted_examples argsort_desc batch)) \<and>
       out ! 6 = FloatTensor3 (map (\<lambda>x. zero_padded_cols (Max (set (map (\<lambda>x. size1 (x3 x)) batch))) (x3 x))
                         (sorted_examples argsort_desc batch)) \<and>
       out ! 7 = LongTensor1 (map (\<lambda>x. int (size1 (x3 x))) (sorted_examples argsort_desc batch)) \<and>
       out ! 8 = LongTensor2 \<lparr> size1 = Max (set (map (\<lambda>x. length (x4 x)) batch)),
                   rows = map (\<lambda>x. zero_padded (Max (set (map (\<lambda>x. length (x4 x)) batch))) (x4 x))
                            (sorted_examples argsort_desc batch) \<rparr>)"
proof -
  have a: "mset (sorted_examples argsort_desc batch) = mset batch"
    using assms(1) by (rule sorted_examples_perm)
  have b: "sorted (rev (map (\<lambda>x. int (size1 (x1 x))) (sorted_examples argsort_desc batch)))"
    using assms(1) by (rule sorted_examples_desc)
  have c: "\<forall>x\<in>set batch. size1 (x1 x) \<le> size1 (x1 (hd (sorted_examples argsort_desc batch)))"
    using sorted_examples_first [OF assms(1)] by blast
  show ?thesis
    using a b c unfolding collate_eq [OF assms] by simp
qed

theorem collate_order_witness:
  "valid_argsort_desc demo_argsort_desc \<and> [demo_long_text, demo_short_text] \<noteq> [] \<and>
   list_all (\<lambda>x. is_tensor (x1 x) \<and> is_tensor (x2 x) \<and> is_tensor (x3 x) \<and>
        size0 (x1 x) = size0 (x1 (hd [demo_long_text, demo_short_text])) \<and>
        size0 (x2 x) = size0 (x2 (hd [demo_long_text, demo_short_text])) \<and>
        size0 (x3 x) = 1) [demo_long_text, demo_short_text] \<and>
   sorted_examples demo_argsort_desc [demo_long_text, demo_short_text] =
     [demo_short_text, demo_long_text] \<and>
   sorted (rev (map (\<lambda>x. int (size1 (x1 x))) [demo_short_text, demo_long_text])) \<and>
   size1 (x1 demo_long_text) \<le> size1 (x1 (hd [demo_short_text, demo_long_text]))"
proof -
  have h: "[demo_long_text, demo_short_text] \<noteq> []"
    "\<forall>x\<in>set [demo_long_text, demo_short_text].
        is_tensor (x1 x) \<and> is_tensor (x2 x) \<and> is_tensor (x3 x) \<and>
        size0 (x1 x) = size0 (x1 (hd [demo_long_text, demo_short_text])) \<and>
        size0 (x2 x) = size0 (x2 (hd [demo_long_text, demo_short_text])) \<and>
        size0 (x3 x) = 1"
    by (simp_all add: demo_long_text_def demo_short_text_def is_tensor_def size0_def
          x1_def x2_def x3_def)
  have l: "list_all (\<lambda>x. is_tensor (x1 x) \<and> is_tensor (x2 x) \<and> is_tensor (x3 x) \<and>
        size0 (x1 x) = size0 (x1 (hd [demo_long_text, demo_short_text])) \<and>
        size0 (x2 x) = size0 (x2 (hd [demo_long_text, demo_short_text])) \<and>
        size0 (x3 x) = 1) [demo_long_text, demo_short_text]"
    using h(2) by (simp only: list_all_iff)
  have e: "sorted_examples demo_argsort_desc [demo_long_text, demo_short_text] =
     [demo_short_text, demo_long_text]"
    by code_simp
  note t = collate_order [OF valid_demo_argsort h]
  from t have "sorted (rev (map (\<lambda>x. int (size1 (x1 x)))
      (sorted_examples demo_argsort_desc [demo_long_text, demo_short_text])))" by blast
  then have s: "sorted (rev (map (\<lambda>x. int (size1 (x1 x))) [demo_short_text, demo_long_text]))"
    unfolding e .
  from t have "\<forall>x\<in>set [demo_long_text, demo_short_text]. size1 (x1 x) \<le>
      size1 (x1 (hd (sorted_examples demo_argsort_desc [demo_long_text, demo_short_text])))"
    by blast
  then have f: "size1 (x1 demo_long_text) \<le> size1 (x1 (hd [demo_short_text, demo_long_text]))"
    unfolding e by simp
  from valid_demo_argsort h(1) l e s f show ?thesis by blast
qed

text \<open>
  Claim C10 counts a length vector for each of the five fields. The collator returns
  nine tensors, of which four are length vectors: those of the text units, the
  spectrogram, the pitch feature and the waveform. The durations are padded, and no
  vector of their lengths is returned.
\<close>

theorem collate_output_counterexample:
  "collate demo_argsort_desc [demo_long_text] =
     Inr [LongTensor2 \<lparr> size1 = 5, rows = [[4, 5, 6, 7, 8]] \<rparr>,
          LongTensor1 [5],
          FloatTensor3 [\<lparr> size1 = 1, rows = [[7], [8]] \<rparr>],
          LongTensor1 [1],
          FloatTensor3 [\<lparr> size1 = 1, rows = [[9]] \<rparr>],
          LongTensor1 [1],
          FloatTensor3 [\<lparr> size1 = 2, rows = [[5, 6]] \<rparr>],
          LongTensor1 [2],
          LongTensor2 \<lparr> size1 = 5, rows = [[1, 0, 0, 0, 0]] \<rparr>] \<and>
   length_vectors
         [LongTensor2 \<lparr> size1 = 5, rows = [[4, 5, 6, 7, 8]] \<rparr>,
          LongTensor1 [5],
          FloatTensor3 [\<lparr> size1 = 1, rows = [[7], [8 :: int]] \<rparr>],
          LongTensor1 [1],
          FloatTensor3 [\<lparr> size1 = 1, rows = [[9]] \<rparr>],
          LongTensor1 [1],
          FloatTensor3 [\<lparr> size1 = 2, rows = [[5, 6]] \<rparr>],
          LongTensor1 [2],
          LongTensor2 \<lparr> size1 = 5, rows = [[1, 0, 0, 0, 0]] \<rparr>] = [[5], [1], [1], [2]]"
  by code_simp

text \<open>
  Claim C10, as the code has it: for a non-empty batch of examples whose spectrograms, pitch features and
  waveforms are tensors, with the channel counts of the first example and one-row
  waveforms (otherwise the copy into the padded tensors raises),
  the collator returns, in this order, the text units filled with zeros to the longest
  text of the batch and their lengths, the spectrograms filled with zeros to the most
  frames and their frame counts, the same for the pitch features and for the
  waveforms, and the durations filled with zeros to the longest duration list; the
  four length vectors are all the length vectors of the result.
\<close>

theorem collate_output:
  fixes batch :: "('a::zero) example list"
  assumes "valid_argsort_desc argsort_desc" and "batch \<noteq> []"
    and "\<forall>x\<in>set batch.
        is_tensor (x1 x) \<and> is_tensor (x2 x) \<and> is_tensor (x3 x) \<and>
        size0 (x1 x) = size0 (x1 (hd batch)) \<and> size0 (x2 x) = size0 (x2 (hd batch)) \<and>
        size0 (x3 x) = 1"
  shows "\<exists>out. collate argsort_desc batch = Inr out \<and>
    out =
      [LongTensor2 \<lparr> size1 = Max (set (map (\<lambda>x. length (x0 x)) batch)),
                     rows = map (\<lambda>x. zero_padded (Max (set (map (\<lambda>x. length (x0 x)) batch))) (x0 x))
                              (sorted_examples argsort_desc batch) \<rparr>,
       LongTensor1 (map (\<lambda>x. int (length (x0 x))) (sorted_examples argsort_desc batch)),
       FloatTensor3 (map (\<lambda>x. zero_padded_cols (Max (set (map (\<lambda>x. size1 (x1 x)) batch))) (x1 x))
                       (sorted_examples argsort_desc batch)),
       LongTensor1 (map (\<lambda>x. int (size1 (x1 x))) (sorted_examples argsort_desc batch)),
       FloatTensor3 (map (\<lambda>x. zero_padded_cols (Max (set (map (\<lambda>x. size1 (x2 x)) batch))) (x2 x))
                       (sorted_examples argsort_desc batch)),
       LongTensor1 (map (\<lambda>x. int (size1 (x2 x))) (sorted_examples argsort_desc batch)),
       FloatTensor3 (map (\<lambda>x. zero_padded_cols (Max (set (map (\<lambda>x. size1 (x3 x)) batch))) (x3 x))
                       (sorted_examples argsort_desc batch)),
       LongTensor1 (map (\<lambda>x. int (size1 (x3 x))) (sorted_examples argsort_desc batch)),
       LongTensor2 \<lparr> size1 = Max (set (map (\<lambda>x. length (x4 x)) batch)),
                     rows = map (\<lambda>x. zero_padded (Max (set (map (\<lambda>x. length (x4 x)) batch))) (x4 x))
                              (sorted_examples argsort_desc batch) \<rparr>] \<and>
    length_vectors out =
      [map (\<lambda>x. int (length (x0 x))) (sorted_examples argsort_desc batch),
       map (\<lambda>x. int (size1 (x1 x))) (sorted_examples argsort_desc batch),
       map (\<lambda>x. int (size1 (x2 x))) (sorted_examples argsort_desc batch),
       map (\<lambda>x. int (size1 (x3 x))) (sorted_examples argsort_desc batch)]"
  unfolding collate_eq [OF assms] by simp

theorem collate_output_witness:
  "valid_argsort_desc demo_argsort_desc \<and> [demo_long_text, demo_short_text] \<noteq> [] \<and>
   list_all (\<lambda>x. is_tensor (x1 x) \<and> is_tensor (x2 x) \<and> is_tensor (x3 x) \<and>
        size0 (x1 x) = size0 (x1 (hd [demo_long_text, demo_short_text])) \<and>
        size0 (x2 x) = size0 (x2 (hd [demo_long_text, demo_short_text])) \<and>
        size0 (x3 x) = 1) [demo_long_text, demo_short_text] \<and>
   collate demo_argsort_desc [demo_long_text, demo_short_text] =
     Inr [LongTensor2 \<lparr> size1 = 5, rows = [[1, 2, 3, 0, 0], [4, 5, 6, 7, 8]] \<rparr>,
          LongTensor1 [3, 5],
          FloatTensor3 [\<lparr> size1 = 2, rows = [[1, 2], [3, 4]] \<rparr>, \<lparr> size1 = 2, rows = [[7, 0], [8, 0]] \<rparr>],
          LongTensor1 [2, 1],
          FloatTensor3 [\<lparr> size1 = 2, rows = [[5, 6]] \<rparr>, \<lparr> size1 = 2, rows = [[9, 0]] \<rparr>],
          LongTensor1 [2, 1],
          FloatTensor3 [\<lparr> size1 = 4, rows = [[1, 2, 3, 4]] \<rparr>, \<lparr> size1 = 4, rows = [[5, 6, 0, 0]] \<rparr>],
          LongTensor1 [4, 2],
          LongTensor2 \<lparr> size1 = 5, rows = [[1, 1, 0, 0, 0], [1, 0, 0, 0, 0]] \<rparr>]"
proof -
  have h: "[demo_long_text, demo_short_text] \<noteq> []"
    "\<forall>x\<in>set [demo_long_text, demo_short_text].
        is_tensor (x1 x) \<and> is_tensor (x2 x) \<and> is_tensor (x3 x) \<and>
        size0 (x1 x) = size0 (x1 (hd [demo_long_text, demo_short_text])) \<and>
        size0 (x2 x) = size0 (x2 (hd [demo_long_text, demo_short_text])) \<and>
        size0 (x3 x) = 1"
    by (simp_all add: demo_long_text_def demo_short_text_def is_tensor_def size0_def
          x1_def x2_def x3_def)
  have l: "list_all (\<lambda>x. is_tensor (x1 x) \<and> is_tensor (x2 x) \<and> is_tensor (x3 x) \<and>
        size0 (x1 x) = size0 (x1 (hd [demo_long_text, demo_short_text])) \<and>
        size0 (x2 x) = size0 (x2 (hd [demo_long_text, demo_short_text])) \<and>
        size0 (x3 x) = 1) [demo_long_text, demo_short_text]"
    using h(2) by (simp only: list_all_iff)
  from collate_output [OF valid_demo_argsort h] obtain out where
    o: "collate demo_argsort_desc [demo_long_text, demo_short_text] = Inr out" by blast
  have c: "collate demo_argsort_desc [demo_long_text, demo_short_text] =
     Inr [LongTensor2 \<lparr> size1 = 5, rows = [[1, 2, 3, 0, 0], [4, 5, 6, 7, 8]] \<rparr>,
          LongTensor1 [3, 5],
          FloatTensor3 [\<lparr> size1 = 2, rows = [[1, 2], [3, 4]] \<rparr>, \<lparr> size1 = 2, rows = [[7, 0], [8, 0]] \<rparr>],
          LongTensor1 [2, 1],
          FloatTensor3 [\<lparr> size1 = 2, rows = [[5, 6]] \<rparr>, \<lparr> size1 = 2, rows = [[9, 0]] \<rparr>],
          LongTensor1 [2, 1],
          FloatTensor3 [\<lparr> size1 = 4, rows = [[1, 2, 3, 4]] \<rparr>, \<lparr> size1 = 4, rows = [[5, 6, 0, 0]] \<rparr>],
          LongTensor1 [4, 2],
          LongTensor2 \<lparr> size1 = 5, rows = [[1, 1, 0, 0, 0], [1, 0, 0, 0, 0]] \<rparr>]"
    by code_simp
  from valid_demo_argsort h(1) l o c show ?thesis by blast
qed

end
